theory Spec2Isabelle
  imports Complex_Main
begin

section \<open>Data model\<close>

text \<open>
  The four-vector of \<^verbatim>\<open>FourVector\<close> (time component first). The components are C++
  \<^verbatim>\<open>double\<close>s; the model reads them as real numbers, so rounding, infinities and NaN
  are outside the model. Most of the code paths verified below only copy and compare
  such values; sums, products and square roots are those of the reals.
\<close>

record FourVector =
  x0 :: real
  x1 :: real
  x2 :: real
  x3 :: real

text \<open>
  \<^verbatim>\<open>ParticleData\<close>, with the members the verified code reads or writes. The member
  \<^verbatim>\<open>id_\<close> is named \<open>id_pd\<close> (\<open>id\<close> is the identity function of HOL), \<^verbatim>\<open>index_\<close>
  and \<^verbatim>\<open>hole_\<close> are the private members the store uses; the other fields carry the
  names of their getters. \<^verbatim>\<open>unsigned\<close> indices are natural numbers and \<^verbatim>\<open>int\<close>
  identifiers are integers: no arithmetic of the verified paths can wrap.
\<close>

record ParticleData =
  id_pd :: int
  id_process :: int
  index_pd :: nat
  hole :: bool
  pdgcode :: int
  momentum :: FourVector
  position :: FourVector
  formation_time :: real
  begin_formation_time :: real
  initial_xsec_scaling_factor :: real

type_synonym ParticleList = "ParticleData list"

section \<open>The particle store (particles.h)\<close>

text \<open>
  \<^verbatim>\<open>class Particles\<close>: \<open>data\<close> is the allocated array \<^verbatim>\<open>data_\<close> (its length is
  \<^verbatim>\<open>data_capacity_\<close>), \<open>data_size\<close> the used range, \<open>dirty\<close> the indexes of the holes
  and \<open>id_max\<close> the highest identity given out so far.
\<close>

record Particles =
  id_max :: int
  data_size :: nat
  data :: "ParticleData list"
  dirty :: "nat list"

text \<open>
  A read of \<^verbatim>\<open>data_[i]\<close> outside the allocation is undefined behaviour in C++; the model
  makes it a value of its own, so that "does not fault" is a statement about the result.
\<close>

datatype fault = OutOfBounds

text \<open>
  \<^verbatim>\<open>Particles::is_valid\<close>: the early return for an index at or beyond \<^verbatim>\<open>data_size_\<close>,
  then the comparison of identity and process identifier of the slot with the copy's.
\<close>

definition is_valid :: "Particles \<Rightarrow> ParticleData \<Rightarrow> fault + bool" where
  "is_valid ps copy =
     (if data_size ps \<le> index_pd copy then Inr False
      else if length (data ps) \<le> index_pd copy then Inl OutOfBounds
      else Inr (id_pd (data ps ! index_pd copy) = id_pd copy \<and>
                id_process (data ps ! index_pd copy) = id_process copy))"

text \<open>\<^verbatim>\<open>Particles::size\<close>: the used range without the holes.\<close>

definition size_particles :: "Particles \<Rightarrow> nat" where
  "size_particles ps = data_size ps - length (dirty ps)"

text \<open>
  The allocation invariant of the class: the used range lies inside the allocated
  array (\<^verbatim>\<open>data_size_ <= data_capacity_\<close>).
\<close>

definition allocated :: "Particles \<Rightarrow> bool" where
  "allocated ps = (data_size ps \<le> length (data ps))"


section \<open>Scatter actions (scatteraction.cc)\<close>

text \<open>
  The process types \<^verbatim>\<open>generate_final_state\<close> and \<^verbatim>\<open>string_excitation\<close> switch on. The
  enumeration itself is declared outside the sources at hand; \<open>OtherProcess\<close> stands for
  its remaining enumerators (decays, wall crossings, ...), which reach the \<^verbatim>\<open>default\<close>
  branches.
\<close>

datatype ProcessType =
    Elastic
  | TwoToOne
  | TwoToTwo
  | StringSoftSingleDiffractiveAX
  | StringSoftSingleDiffractiveXB
  | StringSoftDoubleDiffractive
  | StringSoftAnnihilation
  | StringSoftNonDiffractive
  | StringHard
  | OtherProcess nat

text \<open>What the code throws, and the two ways it can leave defined behaviour.\<close>

datatype exception =
    InvalidScatterAction
  | InvalidResonanceFormation
  | InvalidHandle
  | AssertionFailed
  | OutOfRange

text \<open>\<^verbatim>\<open>class Action\<close>: the members the verified code uses.\<close>

record Action =
  incoming_particles :: ParticleList
  outgoing_particles :: ParticleList
  time_of_execution :: real
  process_type :: ProcessType

text \<open>\<^verbatim>\<open>CollisionBranch\<close>: process type, outgoing particles and weight of a channel.\<close>

record CollisionBranch =
  get_type :: ProcessType
  particle_list :: ParticleList
  weight :: real

text \<open>\<^verbatim>\<open>class ScatterAction : public Action\<close>.\<close>

record ScatterAction = Action +
  total_cross_section :: real
  partial_cross_section :: real
  collision_channels :: "CollisionBranch list"
  isotropic :: bool
  string_formation_time :: real

text \<open>
  The constructor: the two incoming particles, the time, no outgoing particles, no
  channel and a total cross section of zero. The constructor leaves \<^verbatim>\<open>process_type_\<close>
  and \<^verbatim>\<open>partial_cross_section_\<close> to their defaults, given here as arguments.
\<close>

definition ScatterAction_new ::
  "ParticleData \<Rightarrow> ParticleData \<Rightarrow> real \<Rightarrow> bool \<Rightarrow> real \<Rightarrow> ProcessType \<Rightarrow> real \<Rightarrow> ScatterAction" where
  "ScatterAction_new in_part_a in_part_b time isotr sft pt0 pcs0 =
     \<lparr>incoming_particles = [in_part_a, in_part_b], outgoing_particles = [],
      time_of_execution = time, process_type = pt0,
      total_cross_section = 0, partial_cross_section = pcs0, collision_channels = [],
      isotropic = isotr, string_formation_time = sft\<rparr>"

subsection \<open>Members of ParticleData and FourVector the code calls\<close>

text \<open>
  Modelled from the spec: the setters of \<^verbatim>\<open>ParticleData\<close> are declared in
  particledata.h, which is not among the sources. \<open>set_formation_time\<close> stores the
  formation time (the spec names no other effect: "outgoing particles simply receive
  formation time = execution time"), \<open>set_slow_formation_times\<close> stores the start of the
  formation interval and the formation time, \<open>set_cross_section_scaling_factor\<close> stores
  the (initial) scaling factor.
\<close>

definition set_formation_time :: "real \<Rightarrow> ParticleData \<Rightarrow> ParticleData" where
  "set_formation_time form_time p = p\<lparr>formation_time := form_time\<rparr>"

definition set_slow_formation_times :: "real \<Rightarrow> real \<Rightarrow> ParticleData \<Rightarrow> ParticleData" where
  "set_slow_formation_times begin_form_time form_time p =
     p\<lparr>begin_formation_time := begin_form_time, formation_time := form_time\<rparr>"

definition set_cross_section_scaling_factor :: "real \<Rightarrow> ParticleData \<Rightarrow> ParticleData" where
  "set_cross_section_scaling_factor xsec_scal p = p\<lparr>initial_xsec_scaling_factor := xsec_scal\<rparr>"

text \<open>
  Modelled from the spec: \<^verbatim>\<open>FourVector\<close> (fourvector.h) and
  \<^verbatim>\<open>ParticleData::set_4momentum\<close> are not among the sources. \<open>sqr\<close> is the Minkowski
  square, \<open>abs_fv\<close> its root (the invariant mass of a momentum), and
  \<open>set_4momentum mass px py pz\<close> stores the on-shell momentum of that mass and
  three-momentum.
\<close>

definition add_fv :: "FourVector \<Rightarrow> FourVector \<Rightarrow> FourVector" where
  "add_fv a b = \<lparr>x0 = x0 a + x0 b, x1 = x1 a + x1 b, x2 = x2 a + x2 b, x3 = x3 a + x3 b\<rparr>"

definition sqr :: "FourVector \<Rightarrow> real" where
  "sqr a = x0 a * x0 a - x1 a * x1 a - x2 a * x2 a - x3 a * x3 a"

definition abs_fv :: "FourVector \<Rightarrow> real" where
  "abs_fv a = sqrt (sqr a)"

definition set_4momentum :: "real \<Rightarrow> real \<Rightarrow> real \<Rightarrow> real \<Rightarrow> ParticleData \<Rightarrow> ParticleData" where
  "set_4momentum mass px py pz p =
     p\<lparr>momentum := \<lparr>x0 = sqrt (mass * mass + (px * px + py * py + pz * pz)),
                     x1 = px, x2 = py, x3 = pz\<rparr>\<rparr>"

text \<open>
  Modelled from the spec: \<^verbatim>\<open>Action::total_momentum_of_outgoing_particles\<close> is defined in
  action.cc, not among the sources. For a formed resonance "all energy is invariant
  mass" of the incoming pair: the total momentum is the sum of the incoming momenta.
\<close>

definition total_momentum_of_outgoing_particles :: "'a Action_scheme \<Rightarrow> FourVector" where
  "total_momentum_of_outgoing_particles act =
     add_fv (momentum (incoming_particles act ! 0)) (momentum (incoming_particles act ! 1))"

subsection \<open>Accumulating channels, total weight\<close>

text \<open>
  Modelled from the spec: \<^verbatim>\<open>Action::add_process\<close> and \<^verbatim>\<open>add_processes\<close> are templates
  of action.h, not among the sources. A candidate branch is appended to the channel
  list and its weight added to the running total.
\<close>

definition add_process ::
  "CollisionBranch \<Rightarrow> CollisionBranch list \<times> real \<Rightarrow> CollisionBranch list \<times> real" where
  "add_process p st = (fst st @ [p], snd st + weight p)"

definition add_processes ::
  "CollisionBranch list \<Rightarrow> CollisionBranch list \<times> real \<Rightarrow> CollisionBranch list \<times> real" where
  "add_processes pv st = fold add_process pv st"

text \<open>\<^verbatim>\<open>ScatterAction::add_collision\<close> and \<^verbatim>\<open>add_collisions\<close>.\<close>

definition add_collision :: "CollisionBranch \<Rightarrow> ScatterAction \<Rightarrow> ScatterAction" where
  "add_collision p act =
     (let st = add_process p (collision_channels act, total_cross_section act)
      in act\<lparr>collision_channels := fst st, total_cross_section := snd st\<rparr>)"

definition add_collisions :: "CollisionBranch list \<Rightarrow> ScatterAction \<Rightarrow> ScatterAction" where
  "add_collisions pv act =
     (let st = add_processes pv (collision_channels act, total_cross_section act)
      in act\<lparr>collision_channels := fst st, total_cross_section := snd st\<rparr>)"

text \<open>
  \<^verbatim>\<open>ScatterAction::get_total_weight\<close>. \<^verbatim>\<open>ParticleData::xsec_scaling_factor\<close>, the current
  scaling factor of a particle, is not among the sources: it is the parameter \<open>xsf\<close>.
\<close>

definition get_total_weight :: "(ParticleData \<Rightarrow> real) \<Rightarrow> ScatterAction \<Rightarrow> real" where
  "get_total_weight xsf act =
     total_cross_section act * xsf (incoming_particles act ! 0) * xsf (incoming_particles act ! 1)"

subsection \<open>Realising the chosen channel\<close>

text \<open>
  Modelled from the spec: \<^verbatim>\<open>is_string_soft_process\<close> is declared in processbranch.h,
  not among the sources; the soft string processes are the five string variants other
  than the hard one.
\<close>

definition is_string_soft_process :: "ProcessType \<Rightarrow> bool" where
  "is_string_soft_process pt =
     (pt = StringSoftSingleDiffractiveAX \<or> pt = StringSoftSingleDiffractiveXB \<or>
      pt = StringSoftDoubleDiffractive \<or> pt = StringSoftAnnihilation \<or>
      pt = StringSoftNonDiffractive)"

text \<open>
  \<^verbatim>\<open>ScatterAction::sample_angles\<close>. The angles are drawn from the random number stream
  and turned into momenta by floating-point kinematics; the model takes the two
  four-momenta that \<^verbatim>\<open>set_4momentum\<close> finally stores (\<open>moms\<close>) as an input. What is kept
  of the function is its control flow and its writes: the early return for string
  processes, the assertion on two outgoing particles, and the fact that only the
  momenta of the two outgoing particles are written.
\<close>

definition sample_angles ::
  "FourVector \<times> FourVector \<Rightarrow> ScatterAction \<Rightarrow> exception + ScatterAction" where
  "sample_angles moms act =
     (if is_string_soft_process (process_type act) \<or> process_type act = StringHard
      then Inr act
      else if length (outgoing_particles act) \<noteq> 2 then Inl AssertionFailed
      else Inr (act\<lparr>outgoing_particles :=
                  [(outgoing_particles act ! 0)\<lparr>momentum := fst moms\<rparr>,
                   (outgoing_particles act ! 1)\<lparr>momentum := snd moms\<rparr>]\<rparr>))"

text \<open>
  \<^verbatim>\<open>ScatterAction::elastic_scattering\<close>: the two incoming particles are copied over the
  first two outgoing slots (which must exist), then the momenta are resampled.
\<close>

definition elastic_scattering ::
  "FourVector \<times> FourVector \<Rightarrow> ScatterAction \<Rightarrow> exception + ScatterAction" where
  "elastic_scattering moms act =
     (if length (outgoing_particles act) < 2 \<or> length (incoming_particles act) < 2
      then Inl OutOfRange
      else sample_angles moms
             (act\<lparr>outgoing_particles :=
                (outgoing_particles act)[0 := incoming_particles act ! 0,
                                         1 := incoming_particles act ! 1]\<rparr>))"

text \<open>
  Modelled from the spec: \<^verbatim>\<open>Action::sample_2body_phasespace\<close> is defined in action.cc,
  not among the sources. It "samples a two-body phase space for the outgoing masses":
  the two sampled momenta (\<open>moms\<close>, an input as for \<open>sample_angles\<close>) are stored in the
  two outgoing particles.
\<close>

definition sample_2body_phasespace ::
  "FourVector \<times> FourVector \<Rightarrow> ScatterAction \<Rightarrow> exception + ScatterAction" where
  "sample_2body_phasespace moms act =
     (if length (outgoing_particles act) \<noteq> 2 then Inl AssertionFailed
      else Inr (act\<lparr>outgoing_particles :=
                  [(outgoing_particles act ! 0)\<lparr>momentum := fst moms\<rparr>,
                   (outgoing_particles act ! 1)\<lparr>momentum := snd moms\<rparr>]\<rparr>))"

text \<open>
  The formation data both \<^verbatim>\<open>inelastic_scattering\<close> and \<^verbatim>\<open>resonance_formation\<close> give an
  outgoing particle: the body of their common \<^verbatim>\<open>if (t0 > time_of_execution_ || t1 >
  time_of_execution_)\<close>, with \<^verbatim>\<open>index_tmax = (t0 > t1) ? 0 : 1\<close>.
\<close>

definition index_tmax :: "'a Action_scheme \<Rightarrow> nat" where
  "index_tmax act =
     (if formation_time (incoming_particles act ! 0) > formation_time (incoming_particles act ! 1)
      then 0 else 1)"

definition inherit_formation :: "'a Action_scheme \<Rightarrow> ParticleData \<Rightarrow> ParticleData" where
  "inherit_formation act out =
     (let t0 = formation_time (incoming_particles act ! 0);
          t1 = formation_time (incoming_particles act ! 1);
          form_time_begin = begin_formation_time (incoming_particles act ! index_tmax act);
          sc = initial_xsec_scaling_factor (incoming_particles act ! index_tmax act)
      in if t0 > time_of_execution act \<or> t1 > time_of_execution act
         then set_cross_section_scaling_factor sc
                (set_slow_formation_times form_time_begin (max t0 t1) out)
         else set_formation_time (time_of_execution act) out)"

text \<open>\<^verbatim>\<open>ScatterAction::inelastic_scattering\<close>.\<close>

definition inelastic_scattering ::
  "FourVector \<times> FourVector \<Rightarrow> ScatterAction \<Rightarrow> exception + ScatterAction" where
  "inelastic_scattering moms act =
     (case sample_2body_phasespace moms act of
        Inl e \<Rightarrow> Inl e
      | Inr act1 \<Rightarrow>
          if length (incoming_particles act1) < 2 \<or> length (outgoing_particles act1) < 2
          then Inl OutOfRange
          else Inr (act1\<lparr>outgoing_particles :=
                      (outgoing_particles act1)
                        [0 := inherit_formation act1 (outgoing_particles act1 ! 0),
                         1 := inherit_formation act1 (outgoing_particles act1 ! 1)]\<rparr>))"

text \<open>
  \<^verbatim>\<open>ScatterAction::resonance_formation\<close>: the throw when the final state does not have
  exactly one particle (the message reads both incoming particles), the resonance at
  rest with the invariant mass as its energy, then the formation data.
\<close>

definition resonance_formation :: "ScatterAction \<Rightarrow> exception + ScatterAction" where
  "resonance_formation act =
     (if length (incoming_particles act) < 2 then Inl OutOfRange
      else if length (outgoing_particles act) \<noteq> 1 then Inl InvalidResonanceFormation
      else
        let out0 = set_4momentum (abs_fv (total_momentum_of_outgoing_particles act)) 0 0 0
                     (outgoing_particles act ! 0)
        in Inr (act\<lparr>outgoing_particles := [inherit_formation act out0]\<rparr>))"

subsection \<open>String excitation\<close>

text \<open>
  The event-generator session \<^verbatim>\<open>string_process_\<close> is an external, mutable object. Its
  state is a value of a type \<open>'s\<close>, and its interface is a record of functions over
  that state: \<open>init\<close>, the five \<open>next_...\<close> entry points (each reports success and
  leaves a new state) and \<open>get_final_state\<close>.
\<close>

record 's StringProcess =
  init :: "ParticleList \<Rightarrow> real \<Rightarrow> 's \<Rightarrow> 's"
  next_SDiff :: "bool \<Rightarrow> 's \<Rightarrow> bool \<times> 's"
  next_DDiff :: "'s \<Rightarrow> bool \<times> 's"
  next_NDiffSoft :: "'s \<Rightarrow> bool \<times> 's"
  next_BBbarAnn :: "'s \<Rightarrow> bool \<times> 's"
  next_NDiffHard :: "'s \<Rightarrow> bool \<times> 's"
  get_final_state :: "'s \<Rightarrow> ParticleList"

text \<open>The \<^verbatim>\<open>switch\<close> inside the retry loop: one try of the session.\<close>

fun next_try :: "'s StringProcess \<Rightarrow> ProcessType \<Rightarrow> 's \<Rightarrow> bool \<times> 's" where
  "next_try sp StringSoftSingleDiffractiveAX s = next_SDiff sp True s"
| "next_try sp StringSoftSingleDiffractiveXB s = next_SDiff sp False s"
| "next_try sp StringSoftDoubleDiffractive s = next_DDiff sp s"
| "next_try sp StringSoftNonDiffractive s = next_NDiffSoft sp s"
| "next_try sp StringSoftAnnihilation s = next_BBbarAnn sp s"
| "next_try sp StringHard s = next_NDiffHard sp s"
| "next_try sp _ s = (False, s)"

definition ntry_max :: int where
  "ntry_max = 10000"

text \<open>
  The loop \<^verbatim>\<open>while (!success && ntry < ntry_max)\<close>; it returns the final \<^verbatim>\<open>success\<close>,
  \<^verbatim>\<open>ntry\<close> and session state.
\<close>

function string_tries ::
  "'s StringProcess \<Rightarrow> ProcessType \<Rightarrow> bool \<Rightarrow> int \<Rightarrow> 's \<Rightarrow> bool \<times> int \<times> 's" where
  "string_tries sp pt success ntry s =
     (if \<not> success \<and> ntry < ntry_max
      then (case next_try sp pt s of (success', s') \<Rightarrow> string_tries sp pt success' (ntry + 1) s')
      else (success, ntry, s))"
  by pat_completeness auto
termination
  by (relation "measure (\<lambda>(sp, pt, success, ntry, s). nat (ntry_max - ntry))") auto

declare string_tries.simps [simp del]

text \<open>
  The adjustment of one string fragment when an incoming particle is still forming
  (the body of the \<^verbatim>\<open>for\<close> loop over the outgoing particles).
\<close>

definition adjust_fragment :: "real \<Rightarrow> real \<Rightarrow> real \<Rightarrow> ParticleData \<Rightarrow> ParticleData" where
  "adjust_fragment time tform_in fin out =
     (let tform_out = formation_time out;
          fout = initial_xsec_scaling_factor out;
          out1 = set_cross_section_scaling_factor (fin * fout) out
      in if tform_in > tform_out then set_slow_formation_times time tform_in out1 else out1)"

text \<open>
  \<^verbatim>\<open>ScatterAction::string_excitation\<close>. The result is the action, the session state and
  the final value of the local counter \<^verbatim>\<open>ntry\<close>.
\<close>

definition string_excitation ::
  "'s StringProcess \<Rightarrow> FourVector \<times> FourVector \<Rightarrow> ScatterAction \<Rightarrow> 's \<Rightarrow>
     exception + (ScatterAction \<times> 's \<times> int)" where
  "string_excitation sp moms act s0 =
     (if length (incoming_particles act) \<noteq> 2 then Inl AssertionFailed
      else
        let s1 = init sp (incoming_particles act) (time_of_execution act) s0
        in case string_tries sp (process_type act) False 0 s1 of
             (success, ntry, s2) \<Rightarrow>
               if ntry = ntry_max
               then
                 (case elastic_scattering moms
                         (act\<lparr>outgoing_particles :=
                                outgoing_particles act @
                                  [incoming_particles act ! 0, incoming_particles act ! 1],
                              process_type := Elastic\<rparr>) of
                    Inl e \<Rightarrow> Inl e
                  | Inr act' \<Rightarrow> Inr (act', s2, ntry))
               else
                 let outs = get_final_state sp s2;
                     t0 = formation_time (incoming_particles act ! 0);
                     t1 = formation_time (incoming_particles act ! 1);
                     tform_in = max t0 t1;
                     fin = (if t0 > t1
                            then initial_xsec_scaling_factor (incoming_particles act ! 0)
                            else initial_xsec_scaling_factor (incoming_particles act ! 1))
                 in Inr (act\<lparr>outgoing_particles :=
                              (if tform_in > time_of_execution act
                               then map (adjust_fragment (time_of_execution act) tform_in fin) outs
                               else outs)\<rparr>,
                         s2, ntry))"

section \<open>Mutating the store\<close>

text \<open>
  Modelled from the spec: \<^verbatim>\<open>Particles::insert\<close>, \<^verbatim>\<open>copy_in\<close>, \<^verbatim>\<open>ensure_capacity\<close>,
  \<^verbatim>\<open>increase_capacity\<close>, \<^verbatim>\<open>remove\<close> and \<^verbatim>\<open>replace\<close> are declared in particles.h and
  defined in particles.cc, which is not among the sources. The definitions below follow
  the declarations' comments and the spec:
  \<^item> \<open>copy_in\<close>: "the particle id in data_ is set to the next id for a new particle";
    "id_process, type, momentum, and position are copied"; index and hole flag are not
    modified;
  \<^item> \<open>insert_particle\<close> (\<^verbatim>\<open>insert\<close>): "reuses the lowest-index hole if one exists, else
    grows capacity" (\<open>ensure_capacity\<close>, by a growth factor taken to be 2) and uses the
    slot at the end of the used range;
  \<^item> \<open>remove\<close>: "fails with InvalidHandle unless the handle is currently valid; marks the
    slot a hole; does not compact or reorder remaining slots", and "invalidates any
    handle pointing at it going forward" by "generation-token mismatch": the hole's
    identity becomes \<open>- 1\<close>, the value \<open>id_max\<close> starts from and no particle is given;
  \<^item> \<open>replace\<close>: "removes every entry in toRemove (each must be valid) and inserts every
    entry in toAdd".
\<close>

definition empty_slot :: ParticleData where
  "empty_slot =
     \<lparr>id_pd = - 1, id_process = - 1, index_pd = 0, hole = False, pdgcode = 0,
      momentum = \<lparr>x0 = 0, x1 = 0, x2 = 0, x3 = 0\<rparr>,
      position = \<lparr>x0 = 0, x1 = 0, x2 = 0, x3 = 0\<rparr>,
      formation_time = 0, begin_formation_time = 0, initial_xsec_scaling_factor = 1\<rparr>"

definition increase_capacity :: "nat \<Rightarrow> Particles \<Rightarrow> Particles" where
  "increase_capacity new_capacity ps =
     ps\<lparr>data := data ps @ replicate (new_capacity - length (data ps)) empty_slot\<rparr>"

definition ensure_capacity :: "nat \<Rightarrow> Particles \<Rightarrow> Particles" where
  "ensure_capacity to_add ps =
     (if length (data ps) < data_size ps + to_add
      then increase_capacity (2 * (data_size ps + to_add)) ps
      else ps)"

definition copy_in :: "Particles \<Rightarrow> ParticleData \<Rightarrow> ParticleData \<Rightarrow> ParticleData \<times> Particles" where
  "copy_in ps to from =
     (to\<lparr>id_pd := id_max ps + 1, id_process := id_process from, pdgcode := pdgcode from,
          momentum := momentum from, position := position from\<rparr>,
      ps\<lparr>id_max := id_max ps + 1\<rparr>)"

definition lowest_hole :: "nat list \<Rightarrow> nat" where
  "lowest_hole ds = fold min ds (hd ds)"

definition insert_particle :: "Particles \<Rightarrow> ParticleData \<Rightarrow> Particles" where
  "insert_particle ps p =
     (if dirty ps = []
      then
        let ps1 = ensure_capacity 1 ps;
            i = data_size ps1
        in case copy_in ps1 (data ps1 ! i) p of
             (slot, ps2) \<Rightarrow>
               ps2\<lparr>data := (data ps2)[i := slot\<lparr>index_pd := i, hole := False\<rparr>],
                    data_size := i + 1\<rparr>
      else
        let i = lowest_hole (dirty ps)
        in case copy_in ps (data ps ! i) p of
             (slot, ps2) \<Rightarrow>
               ps2\<lparr>data := (data ps2)[i := slot\<lparr>hole := False\<rparr>],
                    dirty := removeAll i (dirty ps2)\<rparr>)"

definition remove :: "Particles \<Rightarrow> ParticleData \<Rightarrow> exception + Particles" where
  "remove ps p =
     (if is_valid ps p = Inr True
      then Inr (ps\<lparr>data := (data ps)[index_pd p :=
                              (data ps ! index_pd p)\<lparr>hole := True, id_pd := - 1\<rparr>],
                   dirty := index_pd p # dirty ps\<rparr>)
      else Inl InvalidHandle)"

fun remove_all :: "Particles \<Rightarrow> ParticleList \<Rightarrow> exception + Particles" where
  "remove_all ps [] = Inr ps"
| "remove_all ps (p # to_remove) =
     (case remove ps p of Inl e \<Rightarrow> Inl e | Inr ps' \<Rightarrow> remove_all ps' to_remove)"

definition replace :: "Particles \<Rightarrow> ParticleList \<Rightarrow> ParticleList \<Rightarrow> exception + Particles" where
  "replace ps to_remove to_add =
     (case remove_all ps to_remove of
        Inl e \<Rightarrow> Inl e
      | Inr ps' \<Rightarrow> Inr (fold (\<lambda>p s. insert_particle s p) to_add ps'))"

section \<open>The action list of a timestep\<close>

text \<open>
  Modelled from the spec: \<^verbatim>\<open>Action::is_valid\<close> and \<^verbatim>\<open>Action::perform\<close> are defined
  in action.h and action.cc, which are not among the sources. \<open>is_valid_action\<close>
  "re-checks that every incoming handle is still valid in the store"; \<open>perform\<close>
  "mutates the store via a single replace" and "increments a running interaction
  counter" (the final state it selects is the action's \<open>outgoing_particles\<close>, an input
  of the model).
\<close>

definition is_valid_action :: "Particles \<Rightarrow> Action \<Rightarrow> bool" where
  "is_valid_action ps act = list_all (\<lambda>p. is_valid ps p = Inr True) (incoming_particles act)"

definition perform :: "Particles \<Rightarrow> nat \<Rightarrow> Action \<Rightarrow> exception + (Particles \<times> nat)" where
  "perform ps id_process_counter act =
     (case replace ps (incoming_particles act) (outgoing_particles act) of
        Inl e \<Rightarrow> Inl e
      | Inr ps' \<Rightarrow> Inr (ps', id_process_counter + 1))"

text \<open>
  Step (2.a) of \<^verbatim>\<open>Experiment::run_time_evolution\<close>: the loop over the action list that
  step (1.c) has sorted by execution time; the list is taken as it stands after the sort.
  An action that is not valid is skipped; a valid one is performed and reported to the
  outputs. The two members of \<^verbatim>\<open>Action\<close> the loop calls are its parameters \<open>valid\<close> and
  \<open>perf\<close>. The result is the store, the interaction counter and the performed actions
  in order (the calls of \<^verbatim>\<open>at_interaction\<close>); an exception of \<open>perf\<close> ends the loop.
\<close>

fun perform_actions_with ::
  "(Particles \<Rightarrow> 'a \<Rightarrow> bool) \<Rightarrow> (Particles \<Rightarrow> nat \<Rightarrow> 'a \<Rightarrow> exception + (Particles \<times> nat)) \<Rightarrow>
   Particles \<Rightarrow> nat \<Rightarrow> 'a list \<Rightarrow> exception + (Particles \<times> nat \<times> 'a list)" where
  "perform_actions_with valid perf ps interactions_total [] = Inr (ps, interactions_total, [])"
| "perform_actions_with valid perf ps interactions_total (action # actions) =
     (if valid ps action
      then
        (case perf ps interactions_total action of
           Inl e \<Rightarrow> Inl e
         | Inr (ps', total') \<Rightarrow>
             (case perform_actions_with valid perf ps' total' actions of
                Inl e \<Rightarrow> Inl e
              | Inr (ps'', total'', performed) \<Rightarrow> Inr (ps'', total'', action # performed)))
      else perform_actions_with valid perf ps interactions_total actions)"

text \<open>The loop with the two members as modelled above.\<close>

definition perform_actions ::
  "Particles \<Rightarrow> nat \<Rightarrow> Action list \<Rightarrow> exception + (Particles \<times> nat \<times> Action list)" where
  "perform_actions = perform_actions_with is_valid_action perform"

section \<open>Accumulation histories and example data\<close>

text \<open>
  A history of accumulation calls on a scatter action: single branches
  (\<^verbatim>\<open>add_collision\<close>) and lists of branches (\<^verbatim>\<open>add_collisions\<close>), in any order.
\<close>

datatype accumulation = One CollisionBranch | Many "CollisionBranch list"

fun accumulate :: "accumulation \<Rightarrow> ScatterAction \<Rightarrow> ScatterAction" where
  "accumulate (One p) act = add_collision p act"
| "accumulate (Many pv) act = add_collisions pv act"

text \<open>The branches a history passes to the action, in the order of the calls.\<close>

fun accumulated_branches :: "accumulation list \<Rightarrow> CollisionBranch list" where
  "accumulated_branches [] = []"
| "accumulated_branches (One p # calls) = p # accumulated_branches calls"
| "accumulated_branches (Many pv # calls) = pv @ accumulated_branches calls"

text \<open>Concrete particles, stores and actions for the examples below.\<close>

definition particle :: "int \<Rightarrow> int \<Rightarrow> nat \<Rightarrow> ParticleData" where
  "particle i ip k = empty_slot\<lparr>id_pd := i, id_process := ip, index_pd := k\<rparr>"

definition forming :: "real \<Rightarrow> real \<Rightarrow> real \<Rightarrow> ParticleData" where
  "forming begin_t form_t sc =
     empty_slot\<lparr>begin_formation_time := begin_t, formation_time := form_t,
                initial_xsec_scaling_factor := sc\<rparr>"

definition store2 :: Particles where
  "store2 = \<lparr>id_max = 1, data_size = 2, data = [particle 0 0 0, particle 1 0 1, empty_slot],
             dirty = []\<rparr>"

definition half_formed_pair_action :: ScatterAction where
  "half_formed_pair_action =
     add_collision \<lparr>get_type = Elastic, particle_list = [], weight = 2\<rparr>
       (ScatterAction_new (forming 0 1 (1/2)) (forming 0 1 (1/2)) 0 False 0 Elastic 0)"

text \<open>Helpers for building example actions.\<close>

definition with_momentum :: "real \<Rightarrow> real \<Rightarrow> ParticleData \<Rightarrow> ParticleData" where
  "with_momentum e px p = p\<lparr>momentum := \<lparr>x0 = e, x1 = px, x2 = 0, x3 = 0\<rparr>\<rparr>"

definition zero_moms :: "FourVector \<times> FourVector" where
  "zero_moms = (\<lparr>x0 = 0, x1 = 0, x2 = 0, x3 = 0\<rparr>, \<lparr>x0 = 0, x1 = 0, x2 = 0, x3 = 0\<rparr>)"

definition scatter_of ::
  "ParticleData \<Rightarrow> ParticleData \<Rightarrow> real \<Rightarrow> ParticleList \<Rightarrow> ProcessType \<Rightarrow> ScatterAction" where
  "scatter_of a b t outs pt =
     (ScatterAction_new a b t False 0 pt 0)\<lparr>outgoing_particles := outs\<rparr>"

text \<open>
  The formation-time rule in the spec's words, with the start of the formation interval
  and the scaling factor taken from the incoming particle that forms later (the second
  one when both formation times are equal): what an outgoing particle \<open>out\<close> of the
  action \<open>act\<close> must carry.
\<close>

definition inherits_later_formation :: "'a Action_scheme \<Rightarrow> ParticleData \<Rightarrow> bool" where
  "inherits_later_formation act out =
     (let t0 = formation_time (incoming_particles act ! 0);
          t1 = formation_time (incoming_particles act ! 1);
          later = incoming_particles act ! (if t0 > t1 then 0 else 1)
      in if t0 \<le> time_of_execution act \<and> t1 \<le> time_of_execution act
         then formation_time out = time_of_execution act
         else formation_time out = max t0 t1 \<and>
              begin_formation_time out = begin_formation_time later \<and>
              initial_xsec_scaling_factor out = initial_xsec_scaling_factor later)"

text \<open>
  The spec's example: A forms at 5 (begin 2, factor 1/2), B forms at 3 (begin 1, factor
  1/4), the action executes at 4; once as a 2-to-2 and once as a 2-to-1 process (there
  with momenta (5, 3, 0, 0) and (5, -3, 0, 0), invariant mass 10).
\<close>

definition spec_example :: ScatterAction where
  "spec_example =
     scatter_of (forming 2 5 (1/2)) (forming 1 3 (1/4)) 4 [empty_slot, empty_slot] TwoToTwo"

definition spec_example_2to1 :: ScatterAction where
  "spec_example_2to1 =
     scatter_of (with_momentum 5 3 (forming 2 5 (1/2))) (with_momentum 5 (- 3) (forming 1 3 (1/4)))
       4 [empty_slot] TwoToOne"

text \<open>
  One try of the session, split into the state it leaves and the success it reports.
\<close>

definition session_step :: "'s StringProcess \<Rightarrow> ProcessType \<Rightarrow> 's \<Rightarrow> 's" where
  "session_step sp pt s = snd (next_try sp pt s)"

definition session_ok :: "'s StringProcess \<Rightarrow> ProcessType \<Rightarrow> 's \<Rightarrow> bool" where
  "session_ok sp pt s = fst (next_try sp pt s)"



text \<open>
  A stub session whose state counts the tries: it fails in the states below \<open>n\<close>,
  reports success from state \<open>n\<close> on, and then delivers the fragments \<open>fs\<close>.
  Two string actions at time 4: one with incoming particles still forming (the spec's
  example), one with both formed.
\<close>

definition session_succeeding_from :: "nat \<Rightarrow> ParticleList \<Rightarrow> nat StringProcess" where
  "session_succeeding_from n fs =
     \<lparr>init = (\<lambda>incoming time s. 0),
      next_SDiff = (\<lambda>is_AX s. (n \<le> s, Suc s)),
      next_DDiff = (\<lambda>s. (n \<le> s, Suc s)),
      next_NDiffSoft = (\<lambda>s. (n \<le> s, Suc s)),
      next_BBbarAnn = (\<lambda>s. (n \<le> s, Suc s)),
      next_NDiffHard = (\<lambda>s. (n \<le> s, Suc s)),
      get_final_state = (\<lambda>s. fs)\<rparr>"

definition string_example :: ScatterAction where
  "string_example =
     scatter_of (forming 2 5 (1/2)) (forming 1 3 (1/4)) 4 [] StringSoftDoubleDiffractive"


text \<open>
  Every slot of the used range carries an identity the store has given out (or the
  \<open>- 1\<close> of a hole): none is above \<open>id_max\<close>.
\<close>

definition ids_bounded :: "Particles \<Rightarrow> bool" where
  "ids_bounded ps = (\<forall>i<data_size ps. id_pd (data ps ! i) \<le> id_max ps)"

text \<open>
  The store invariant the loop keeps: the used range lies inside the allocation, no slot
  identity is above \<open>id_max\<close>, and \<open>id_max\<close> is at least its initial value \<open>- 1\<close>.
\<close>

definition wf_store :: "Particles \<Rightarrow> bool" where
  "wf_store ps = (allocated ps \<and> ids_bounded ps \<and> - 1 \<le> id_max ps)"

text \<open>
  A copy that is not valid and carries an identity the store has given out before: it
  can never become valid again.
\<close>

definition stale :: "ParticleData \<Rightarrow> Particles \<Rightarrow> bool" where
  "stale p ps = (is_valid ps p \<noteq> Inr True \<and> id_pd p \<le> id_max ps \<and> 0 \<le> id_pd p)"



text \<open>
  A store of three particles with two actions that share the particle in slot 1,
  scheduled at times 1 and 2, and the store after the first of them has been
  performed; a third action at time 1/2 that shares the particle in slot 0 with the
  first, and the store after the third and the second have been performed; a store
  with a hole in slot 0; a store right after \<^verbatim>\<open>reset\<close> (no particle, identities start
  again at 0).
\<close>

definition store3 :: Particles where
  "store3 = \<lparr>id_max = 2, data_size = 3,
             data = [particle 0 0 0, particle 1 0 1, particle 2 0 2], dirty = []\<rparr>"


definition first_action :: Action where
  "first_action = \<lparr>incoming_particles = [particle 0 0 0, particle 1 0 1],
                   outgoing_particles = [particle 0 5 0, particle 1 5 1],
                   time_of_execution = 1, process_type = Elastic\<rparr>"

definition second_action :: Action where
  "second_action = \<lparr>incoming_particles = [particle 1 0 1, particle 2 0 2],
                    outgoing_particles = [particle 1 6 1, particle 2 6 2],
                    time_of_execution = 2, process_type = Elastic\<rparr>"

definition store3_after :: Particles where
  "store3_after = \<lparr>id_max = 4, data_size = 3,
             data = [particle 3 5 0, particle 4 5 1, particle 2 0 2], dirty = []\<rparr>"

definition zeroth_action :: Action where
  "zeroth_action = \<lparr>incoming_particles = [particle 0 0 0],
                    outgoing_particles = [particle 0 7 0],
                    time_of_execution = 1/2, process_type = OtherProcess 0\<rparr>"

definition store3_late :: Particles where
  "store3_late = \<lparr>id_max = 5, data_size = 3,
                  data = [particle 3 7 0, particle 4 6 1, particle 5 6 2], dirty = []\<rparr>"


section \<open>Validity of a copy\<close>

lemma is_valid_beyond_used_range:
  "data_size ps \<le> index_pd copy \<Longrightarrow> is_valid ps copy = Inr False"
  by (simp add: is_valid_def)

lemma is_valid_in_used_range:
  assumes "allocated ps" and "index_pd copy < data_size ps"
  shows "is_valid ps copy =
           Inr (id_pd (data ps ! index_pd copy) = id_pd copy \<and>
                id_process (data ps ! index_pd copy) = id_process copy)"
  using assms by (simp add: is_valid_def allocated_def)

text \<open>
  C5. On a store whose used range lies inside its allocation, \<open>is_valid\<close> always returns
  a boolean (it never faults), and the boolean is true exactly when the copy's index
  lies in the used range and the slot there holds the copy's identity and the copy's
  creating-process identifier. For an index at or beyond the used range the answer is
  false.
\<close>

theorem is_valid_iff_same_token:
  assumes "allocated ps"
  shows "is_valid ps copy =
           Inr (index_pd copy < data_size ps \<and>
                id_pd (data ps ! index_pd copy) = id_pd copy \<and>
                id_process (data ps ! index_pd copy) = id_process copy)"
proof (cases "index_pd copy < data_size ps")
  case True
  with assms show ?thesis by (simp add: is_valid_in_used_range)
next
  case False
  then show ?thesis by (simp add: is_valid_beyond_used_range)
qed


text \<open>
  The theorem of C5 at a store of two particles (and one allocated, unused slot): a copy
  of the second particle is valid; the same copy with an index beyond the used range,
  or with another process identifier, is not.
\<close>

theorem is_valid_iff_same_token_witness:
  "allocated store2 \<and> is_valid store2 (particle 1 0 1) = Inr True \<and>
   is_valid store2 (particle 1 0 2) = Inr False \<and> is_valid store2 (particle 1 7 1) = Inr False"
  using is_valid_iff_same_token [of store2 "particle 1 0 1"]
    is_valid_iff_same_token [of store2 "particle 1 0 2"]
    is_valid_iff_same_token [of store2 "particle 1 7 1"]
  by (simp add: allocated_def store2_def particle_def empty_slot_def)

section \<open>Total weight of a scatter action\<close>

lemma incoming_add_collision [simp]:
  "incoming_particles (add_collision p act) = incoming_particles act"
  by (simp add: add_collision_def Let_def)

lemma incoming_add_collisions [simp]:
  "incoming_particles (add_collisions pv act) = incoming_particles act"
  by (simp add: add_collisions_def Let_def)

lemma add_processes_result:
  "add_processes pv st = (fst st @ pv, snd st + sum_list (map weight pv))"
  unfolding add_processes_def
  by (induction pv arbitrary: st) (simp_all add: add_process_def)

lemma accumulate_channels:
  "collision_channels (fold accumulate calls act) =
     collision_channels act @ accumulated_branches calls \<and>
   total_cross_section (fold accumulate calls act) =
     total_cross_section act + sum_list (map weight (accumulated_branches calls)) \<and>
   incoming_particles (fold accumulate calls act) = incoming_particles act"
proof (induction calls arbitrary: act)
  case Nil
  then show ?case by simp
next
  case (Cons c calls)
  show ?case
  proof (cases c)
    case (One p)
    then show ?thesis
      using Cons.IH [of "add_collision p act"]
      by (simp add: add_collision_def add_process_def Let_def)
  next
    case (Many pv)
    then show ?thesis
      using Cons.IH [of "add_collisions pv act"]
      by (simp add: add_collisions_def add_processes_result Let_def)
  qed
qed

text \<open>
  C7, as the code has it. After any history of \<^verbatim>\<open>add_collision\<close> and \<^verbatim>\<open>add_collisions\<close>
  calls on a freshly constructed scatter action, the channel list holds exactly the
  branches passed in, and the total weight is the sum of their weights multiplied by
  the current cross-section scaling factors of the two incoming particles.
\<close>

theorem total_weight_is_scaled_sum:
  "collision_channels (fold accumulate calls (ScatterAction_new a b t isotr sft pt pcs)) =
     accumulated_branches calls \<and>
   get_total_weight xsf (fold accumulate calls (ScatterAction_new a b t isotr sft pt pcs)) =
     sum_list (map weight (accumulated_branches calls)) * xsf a * xsf b"
  using accumulate_channels [of calls "ScatterAction_new a b t isotr sft pt pcs"]
  by (simp add: get_total_weight_def) (simp add: ScatterAction_new_def)


text \<open>
  C7 as stated fails: two incoming particles that have not begun to form, each with
  scaling factor 1/2 (the current factor is then the initial one), and one accumulated
  branch of weight 2. The sum of the branch weights is 2, the total weight is 1/2.
\<close>

theorem total_weight_not_sum_counterexample:
  "sum_list (map weight (collision_channels half_formed_pair_action)) = 2 \<and>
   get_total_weight initial_xsec_scaling_factor half_formed_pair_action = 1 / 2"
  by (simp add: half_formed_pair_action_def add_collision_def add_process_def Let_def
      ScatterAction_new_def get_total_weight_def forming_def empty_slot_def)


section \<open>Formation times of outgoing particles\<close>

lemma inherit_formation_formed:
  assumes "formation_time (incoming_particles act ! 0) \<le> time_of_execution act"
    and "formation_time (incoming_particles act ! 1) \<le> time_of_execution act"
  shows "formation_time (inherit_formation act out) = time_of_execution act"
  using assms by (simp add: inherit_formation_def Let_def set_formation_time_def)

lemma inherit_formation_forming:
  assumes "\<not> (formation_time (incoming_particles act ! 0) \<le> time_of_execution act \<and>
              formation_time (incoming_particles act ! 1) \<le> time_of_execution act)"
  shows "formation_time (inherit_formation act out) =
           max (formation_time (incoming_particles act ! 0)) (formation_time (incoming_particles act ! 1))"
    and "begin_formation_time (inherit_formation act out) =
           begin_formation_time (incoming_particles act ! index_tmax act)"
    and "initial_xsec_scaling_factor (inherit_formation act out) =
           initial_xsec_scaling_factor (incoming_particles act ! index_tmax act)"
  using assms
  by (auto simp add: inherit_formation_def Let_def set_slow_formation_times_def
      set_cross_section_scaling_factor_def)

lemma inherit_formation_inherits: "inherits_later_formation act (inherit_formation act out)"
  unfolding inherits_later_formation_def Let_def
  using inherit_formation_formed [of act out] inherit_formation_forming [of act out]
  by (simp add: index_tmax_def)

lemma inherit_formation_outgoing [simp]:
  "inherit_formation (act\<lparr>outgoing_particles := outs\<rparr>) = inherit_formation act"
  by (rule ext) (simp add: inherit_formation_def index_tmax_def Let_def)

lemma update_both: "length xs = 2 \<Longrightarrow> xs[0 := a, 1 := b] = [a, b]"
  by (cases xs; cases "tl xs") auto

lemma inelastic_scattering_result:
  assumes "length (incoming_particles act) = 2" and "length (outgoing_particles act) = 2"
  shows "inelastic_scattering moms act =
           Inr (act\<lparr>outgoing_particles :=
                  [inherit_formation act ((outgoing_particles act ! 0)\<lparr>momentum := fst moms\<rparr>),
                   inherit_formation act ((outgoing_particles act ! 1)\<lparr>momentum := snd moms\<rparr>)]\<rparr>)"
  using assms
  by (simp add: inelastic_scattering_def sample_2body_phasespace_def)

lemma resonance_formation_result:
  assumes "length (incoming_particles act) = 2" and "length (outgoing_particles act) = 1"
  shows "resonance_formation act =
           Inr (act\<lparr>outgoing_particles :=
                  [inherit_formation act
                     (set_4momentum (abs_fv (total_momentum_of_outgoing_particles act)) 0 0 0
                        (outgoing_particles act ! 0))]\<rparr>)"
  using assms by (simp add: resonance_formation_def Let_def)

text \<open>
  C3, as the code has it. For a 2-to-2 inelastic resolution (two outgoing particles) and
  for a 2-to-1 resolution (one outgoing particle) of an action with two incoming
  particles, the resolution succeeds and every outgoing particle satisfies the
  formation rule: formation time = execution time when both incoming formation times
  are at or before it; otherwise the later of the two formation times, together with
  the formation-interval start and the initial scaling factor of the incoming particle
  that forms later.
\<close>

theorem formation_time_inheritance:
  assumes "length (incoming_particles act) = 2"
  shows "(length (outgoing_particles act) = 2 \<longrightarrow>
           (\<exists>act'. inelastic_scattering moms act = Inr act' \<and>
                   length (outgoing_particles act') = 2 \<and>
                   (\<forall>out \<in> set (outgoing_particles act'). inherits_later_formation act out))) \<and>
         (length (outgoing_particles act) = 1 \<longrightarrow>
           (\<exists>act'. resonance_formation act = Inr act' \<and>
                   length (outgoing_particles act') = 1 \<and>
                   (\<forall>out \<in> set (outgoing_particles act'). inherits_later_formation act out)))"
  using assms
  by (simp add: inelastic_scattering_result resonance_formation_result
      inherit_formation_inherits)

lemma inelastic_spec_example:
  "inelastic_scattering zero_moms spec_example =
     Inr (spec_example\<lparr>outgoing_particles := [forming 2 5 (1/2), forming 2 5 (1/2)]\<rparr>)"
  by (simp add: spec_example_def scatter_of_def inelastic_scattering_result ScatterAction_new_def
     inherit_formation_def index_tmax_def Let_def forming_def empty_slot_def zero_moms_def
     set_slow_formation_times_def set_cross_section_scaling_factor_def)

text \<open>
  C3 as stated fails on the start of the formation interval: in the spec's example the
  outgoing particles get start 2 (that of A, which forms later), while the earlier of
  the two starts is 1.
\<close>

theorem begin_time_not_earlier_counterexample:
  "inelastic_scattering zero_moms spec_example =
     Inr (spec_example\<lparr>outgoing_particles := [forming 2 5 (1/2), forming 2 5 (1/2)]\<rparr>) \<and>
   begin_formation_time (forming 2 5 (1/2)) = 2 \<and>
   min (begin_formation_time (incoming_particles spec_example ! 0))
       (begin_formation_time (incoming_particles spec_example ! 1)) = 1"
  by (simp add: inelastic_spec_example)
     (simp add: spec_example_def scatter_of_def ScatterAction_new_def forming_def)

text \<open>The theorem of C3 at the spec's example, for both kinds of resolution.\<close>

theorem formation_time_inheritance_witness:
  "length (incoming_particles spec_example) = 2 \<and>
   length (outgoing_particles spec_example) = 2 \<and>
   inherits_later_formation spec_example (forming 2 5 (1/2)) \<and>
   length (incoming_particles spec_example_2to1) = 2 \<and>
   length (outgoing_particles spec_example_2to1) = 1 \<and>
   (\<exists>act'. resonance_formation spec_example_2to1 = Inr act' \<and>
           inherits_later_formation spec_example_2to1 (outgoing_particles act' ! 0))"
proof -
  have a: "length (incoming_particles spec_example) = 2"
    by (simp add: spec_example_def scatter_of_def ScatterAction_new_def)
  have b: "length (outgoing_particles spec_example) = 2"
    by (simp add: spec_example_def scatter_of_def)
  have c: "length (incoming_particles spec_example_2to1) = 2"
    by (simp add: spec_example_2to1_def scatter_of_def ScatterAction_new_def)
  have d: "length (outgoing_particles spec_example_2to1) = 1"
    by (simp add: spec_example_2to1_def scatter_of_def)
  from formation_time_inheritance [OF a, of zero_moms] b
  have "inherits_later_formation spec_example (forming 2 5 (1/2))"
    by (simp add: inelastic_spec_example)
  moreover from formation_time_inheritance [OF c, of zero_moms] d
  have "\<exists>act'. resonance_formation spec_example_2to1 = Inr act' \<and>
           inherits_later_formation spec_example_2to1 (outgoing_particles act' ! 0)"
    by auto
  ultimately show ?thesis using a b c d by simp
qed


section \<open>Resonance formation\<close>

lemma momentum_inherit_formation [simp]:
  "momentum (inherit_formation act out) = momentum out"
  by (simp add: inherit_formation_def Let_def set_formation_time_def
      set_slow_formation_times_def set_cross_section_scaling_factor_def)

lemma momentum_resonance_at_rest:
  "momentum (set_4momentum m 0 0 0 p) = \<lparr>x0 = \<bar>m\<bar>, x1 = 0, x2 = 0, x3 = 0\<rparr>"
  by (simp add: set_4momentum_def)

text \<open>
  C6. For an action with its two incoming particles, \<open>resonance_formation\<close> throws
  \<open>InvalidResonanceFormation\<close> exactly when the final state does not consist of one
  particle. With one particle it returns normally, the particle's three-momentum is
  zero, and its energy is the invariant mass of the incoming pair (the root of the
  Minkowski square of the summed incoming momenta, for a sum that is not spacelike).
\<close>

theorem resonance_formation_throws_iff:
  assumes "length (incoming_particles act) = 2"
  shows "(resonance_formation act = Inl InvalidResonanceFormation) =
           (length (outgoing_particles act) \<noteq> 1) \<and>
         (length (outgoing_particles act) = 1 \<longrightarrow>
           (\<exists>act'. resonance_formation act = Inr act' \<and>
                   length (outgoing_particles act') = 1 \<and>
                   x1 (momentum (outgoing_particles act' ! 0)) = 0 \<and>
                   x2 (momentum (outgoing_particles act' ! 0)) = 0 \<and>
                   x3 (momentum (outgoing_particles act' ! 0)) = 0 \<and>
                   (0 \<le> sqr (add_fv (momentum (incoming_particles act ! 0))
                                     (momentum (incoming_particles act ! 1))) \<longrightarrow>
                    x0 (momentum (outgoing_particles act' ! 0)) =
                      abs_fv (add_fv (momentum (incoming_particles act ! 0))
                                     (momentum (incoming_particles act ! 1))))))"
proof -
  have "(resonance_formation act = Inl InvalidResonanceFormation) =
           (length (outgoing_particles act) \<noteq> 1)"
    using assms by (simp add: resonance_formation_def Let_def)
  then show ?thesis
    using assms
    by (simp add: resonance_formation_result momentum_resonance_at_rest
        total_momentum_of_outgoing_particles_def abs_fv_def)
qed

text \<open>
  The theorem of C6 at the 2-to-1 example (one outgoing particle: no throw, the
  resonance is at rest with energy 10) and at the 2-to-2 example (two outgoing
  particles: the throw).
\<close>

theorem resonance_formation_throws_iff_witness:
  "length (incoming_particles spec_example_2to1) = 2 \<and>
   length (outgoing_particles spec_example_2to1) = 1 \<and>
   resonance_formation spec_example_2to1 \<noteq> Inl InvalidResonanceFormation \<and>
   length (incoming_particles spec_example) = 2 \<and>
   length (outgoing_particles spec_example) = 2 \<and>
   resonance_formation spec_example = Inl InvalidResonanceFormation \<and>
   (\<exists>act'. resonance_formation spec_example_2to1 = Inr act' \<and>
           momentum (outgoing_particles act' ! 0) = \<lparr>x0 = 10, x1 = 0, x2 = 0, x3 = 0\<rparr>)"
proof -
  have a: "length (incoming_particles spec_example) = 2"
    by (simp add: spec_example_def scatter_of_def ScatterAction_new_def)
  have b: "length (outgoing_particles spec_example) = 2"
    by (simp add: spec_example_def scatter_of_def)
  have c: "length (incoming_particles spec_example_2to1) = 2"
    by (simp add: spec_example_2to1_def scatter_of_def ScatterAction_new_def)
  have d: "length (outgoing_particles spec_example_2to1) = 1"
    by (simp add: spec_example_2to1_def scatter_of_def)
  have tot: "add_fv (momentum (incoming_particles spec_example_2to1 ! 0))
               (momentum (incoming_particles spec_example_2to1 ! 1)) =
             \<lparr>x0 = 10, x1 = 0, x2 = 0, x3 = 0\<rparr>"
    by (simp add: spec_example_2to1_def scatter_of_def ScatterAction_new_def with_momentum_def
        add_fv_def)
  have m: "abs_fv \<lparr>x0 = 10, x1 = 0, x2 = 0, x3 = 0\<rparr> = 10"
    using real_sqrt_abs2 [of 10] by (simp add: abs_fv_def sqr_def)
  have s: "0 \<le> sqr \<lparr>x0 = 10, x1 = 0, x2 = 0, x3 = 0\<rparr>"
    by (simp add: sqr_def)
  from resonance_formation_throws_iff [OF c] d tot m s
  obtain act' where r: "resonance_formation spec_example_2to1 = Inr act'"
    and "x0 (momentum (outgoing_particles act' ! 0)) = 10"
    and "x1 (momentum (outgoing_particles act' ! 0)) = 0"
    and "x2 (momentum (outgoing_particles act' ! 0)) = 0"
    and "x3 (momentum (outgoing_particles act' ! 0)) = 0"
    by auto
  then have "momentum (outgoing_particles act' ! 0) = \<lparr>x0 = 10, x1 = 0, x2 = 0, x3 = 0\<rparr>"
    by simp
  with r have e: "\<exists>act'. resonance_formation spec_example_2to1 = Inr act' \<and>
           momentum (outgoing_particles act' ! 0) = \<lparr>x0 = 10, x1 = 0, x2 = 0, x3 = 0\<rparr>"
    by blast
  from resonance_formation_throws_iff [OF c] d
  have f: "resonance_formation spec_example_2to1 \<noteq> Inl InvalidResonanceFormation" by simp
  from resonance_formation_throws_iff [OF a] b
  have g: "resonance_formation spec_example = Inl InvalidResonanceFormation" by simp
  show ?thesis using a b c d e f g by simp
qed


section \<open>String excitation: the retry loop\<close>

lemma string_tries_fail_along_run:
  assumes "\<forall>j<d. \<not> session_ok sp pt ((session_step sp pt ^^ j) s)"
    and "nat (ntry_max - ntry) = d" and "ntry \<le> ntry_max"
  shows "string_tries sp pt False ntry s = (False, ntry_max, (session_step sp pt ^^ d) s)"
  using assms
proof (induction d arbitrary: ntry s)
  case 0
  then have "ntry = ntry_max" by simp
  then show ?case by (subst string_tries.simps) simp
next
  case (Suc d)
  then have lt: "ntry < ntry_max" by simp
  obtain b s' where nt: "next_try sp pt s = (b, s')" by (cases "next_try sp pt s")
  from Suc.prems(1) have "\<not> session_ok sp pt ((session_step sp pt ^^ 0) s)" by blast
  with nt have b: "\<not> b" by (simp add: session_ok_def)
  have s': "s' = session_step sp pt s" using nt by (simp add: session_step_def)
  have "string_tries sp pt False ntry s = string_tries sp pt False (ntry + 1) s'"
    using lt nt b by (simp add: string_tries.simps [of sp pt False ntry s])
  also have "\<dots> = (False, ntry_max, (session_step sp pt ^^ d) s')"
  proof (rule Suc.IH)
    show "\<forall>j<d. \<not> session_ok sp pt ((session_step sp pt ^^ j) s')"
    proof (intro allI impI)
      fix j assume "j < d"
      then have "\<not> session_ok sp pt ((session_step sp pt ^^ Suc j) s)"
        using Suc.prems(1) by auto
      then show "\<not> session_ok sp pt ((session_step sp pt ^^ j) s')"
        by (simp add: s' funpow_swap1)
    qed
    show "nat (ntry_max - (ntry + 1)) = d" using Suc.prems(2) by simp
    show "ntry + 1 \<le> ntry_max" using lt by simp
  qed
  finally show ?case by (simp add: s' funpow_swap1)
qed

lemma string_tries_first_success:
  assumes "\<forall>j<k. \<not> session_ok sp pt ((session_step sp pt ^^ j) s)"
    and "session_ok sp pt ((session_step sp pt ^^ k) s)"
    and "ntry + int k < ntry_max"
  shows "string_tries sp pt False ntry s =
           (True, ntry + int k + 1, (session_step sp pt ^^ (Suc k)) s)"
  using assms
proof (induction k arbitrary: ntry s)
  case 0
  obtain b s' where nt: "next_try sp pt s = (b, s')" by (cases "next_try sp pt s")
  with 0 have b: "b" by (simp add: session_ok_def)
  have s': "s' = session_step sp pt s" using nt by (simp add: session_step_def)
  have "string_tries sp pt False ntry s = string_tries sp pt True (ntry + 1) s'"
    using 0 nt b by (simp add: string_tries.simps [of sp pt False ntry s])
  then show ?case by (simp add: s' string_tries.simps [of sp pt True])
next
  case (Suc k)
  obtain b s' where nt: "next_try sp pt s = (b, s')" by (cases "next_try sp pt s")
  from Suc.prems(1) have "\<not> session_ok sp pt ((session_step sp pt ^^ 0) s)" by blast
  with nt have b: "\<not> b" by (simp add: session_ok_def)
  have s': "s' = session_step sp pt s" using nt by (simp add: session_step_def)
  have lt: "ntry < ntry_max" using Suc.prems(3) by simp
  have "string_tries sp pt False ntry s = string_tries sp pt False (ntry + 1) s'"
    using lt nt b by (simp add: string_tries.simps [of sp pt False ntry s])
  also have "\<dots> = (True, (ntry + 1) + int k + 1, (session_step sp pt ^^ (Suc k)) s')"
  proof (rule Suc.IH)
    show "\<forall>j<k. \<not> session_ok sp pt ((session_step sp pt ^^ j) s')"
    proof (intro allI impI)
      fix j assume "j < k"
      then have "\<not> session_ok sp pt ((session_step sp pt ^^ (Suc j)) s)"
        using Suc.prems(1) by auto
      then show "\<not> session_ok sp pt ((session_step sp pt ^^ j) s')"
        by (simp add: s' funpow_swap1)
    qed
    show "session_ok sp pt ((session_step sp pt ^^ k) s')"
      using Suc.prems(2) by (simp add: s' funpow_swap1)
    show "ntry + 1 + int k < ntry_max" using Suc.prems(3) by simp
  qed
  finally show ?case by (simp add: s' funpow_swap1)
qed

lemma elastic_fallback:
  assumes "length (incoming_particles act) = 2" and "outgoing_particles act = []"
  shows "elastic_scattering moms
           (act\<lparr>outgoing_particles :=
                  outgoing_particles act @ [incoming_particles act ! 0, incoming_particles act ! 1],
                process_type := Elastic\<rparr>) =
         Inr (act\<lparr>outgoing_particles :=
                    [(incoming_particles act ! 0)\<lparr>momentum := fst moms\<rparr>,
                     (incoming_particles act ! 1)\<lparr>momentum := snd moms\<rparr>],
                  process_type := Elastic\<rparr>)"
  using assms
  by (simp add: elastic_scattering_def sample_angles_def is_string_soft_process_def)

text \<open>
  C1. A string resolution (two incoming particles, no outgoing particle yet) whose
  session fails on each of the 10000 tries of this resolution makes exactly 10000
  tries (the counter ends at 10000 and the session has been stepped 10000 times) and
  returns normally with an elastic outcome: process type \<open>Elastic\<close>, and as outgoing
  particles the two incoming particles with only their momenta replaced by the
  resampled ones. Nothing is assumed about the session in other states.
\<close>

theorem string_excitation_all_tries_fail:
  fixes sp :: "'s StringProcess" and act :: ScatterAction and s0 :: 's
  defines "s1 \<equiv> init sp (incoming_particles act) (time_of_execution act) s0"
  assumes "length (incoming_particles act) = 2"
    and "outgoing_particles act = []"
    and "\<forall>j<10000. \<not> session_ok sp (process_type act)
                        ((session_step sp (process_type act) ^^ j) s1)"
  shows "string_excitation sp moms act s0 =
           Inr (act\<lparr>outgoing_particles :=
                      [(incoming_particles act ! 0)\<lparr>momentum := fst moms\<rparr>,
                       (incoming_particles act ! 1)\<lparr>momentum := snd moms\<rparr>],
                    process_type := Elastic\<rparr>,
                (session_step sp (process_type act) ^^ 10000) s1,
                10000)"
proof -
  have "string_tries sp (process_type act) False 0 s1 =
          (False, ntry_max, (session_step sp (process_type act) ^^ 10000) s1)"
    using assms(4) by (intro string_tries_fail_along_run) (simp_all add: ntry_max_def)
  then show ?thesis
    using assms(2,3) elastic_fallback [OF assms(2,3), of moms]
    by (simp add: string_excitation_def Let_def ntry_max_def s1_def [symmetric])
qed



text \<open>
  The boundary of the loop: a first success on the 10000th try leaves \<^verbatim>\<open>ntry ==
  ntry_max\<close>, so the test after the loop takes the elastic branch and the session's
  final state is not used.
\<close>

lemma string_success_on_last_try_discarded:
  fixes sp :: "'s StringProcess" and act :: ScatterAction and s0 :: 's
  defines "pt \<equiv> process_type act"
    and "s1 \<equiv> init sp (incoming_particles act) (time_of_execution act) s0"
  assumes "length (incoming_particles act) = 2"
    and "outgoing_particles act = []"
    and "\<forall>j<9999. \<not> session_ok sp pt ((session_step sp pt ^^ j) s1)"
    and "session_ok sp pt ((session_step sp pt ^^ 9999) s1)"
  shows "string_excitation sp moms act s0 =
           Inr (act\<lparr>outgoing_particles :=
                      [(incoming_particles act ! 0)\<lparr>momentum := fst moms\<rparr>,
                       (incoming_particles act ! 1)\<lparr>momentum := snd moms\<rparr>],
                    process_type := Elastic\<rparr>,
                (session_step sp pt ^^ 10000) s1, 10000)"
proof -
  have "string_tries sp pt False 0 s1 = (True, 0 + int 9999 + 1, (session_step sp pt ^^ Suc 9999) s1)"
    using assms(5,6) by (intro string_tries_first_success) (simp_all add: ntry_max_def)
  moreover have "Suc 9999 = 10000" by simp
  ultimately have "string_tries sp pt False 0 s1 = (True, ntry_max, (session_step sp pt ^^ 10000) s1)"
    by (simp add: ntry_max_def)
  then show ?thesis
    using assms(3,4) elastic_fallback [OF assms(3,4), of moms]
    by (simp add: string_excitation_def Let_def pt_def [symmetric] s1_def [symmetric])
       (simp add: ntry_max_def)
qed

lemma funpow_Suc_0: "(Suc ^^ n) 0 = n"
  by (induction n) simp_all

lemma step_session_succeeding:
  "session_step (session_succeeding_from n fs) StringSoftDoubleDiffractive = Suc"
  by (rule ext) (simp add: session_step_def session_succeeding_from_def)

lemma ok_session_succeeding:
  "session_ok (session_succeeding_from n fs) StringSoftDoubleDiffractive s = (n \<le> s)"
  by (simp add: session_ok_def session_succeeding_from_def)

lemma init_session_succeeding:
  "init (session_succeeding_from n fs) ps t s = 0"
  by (simp add: session_succeeding_from_def)

lemma string_example_fields:
  "incoming_particles string_example = [forming 2 5 (1/2), forming 1 3 (1/4)]"
  "outgoing_particles string_example = []"
  "process_type string_example = StringSoftDoubleDiffractive"
  "time_of_execution string_example = 4"
  by (simp_all add: string_example_def scatter_of_def ScatterAction_new_def)


text \<open>
  The theorem of C1 at the forming example with a session that fails in the states 0
  to 9999 and would succeed in state 10000: all 10000 tries fail, and the counter and
  the session state both end at 10000.
\<close>

theorem string_excitation_all_tries_fail_witness:
  "length (incoming_particles string_example) = 2 \<and>
   outgoing_particles string_example = [] \<and>
   \<not> session_ok (session_succeeding_from 10000 []) (process_type string_example) 0 \<and>
   \<not> session_ok (session_succeeding_from 10000 []) (process_type string_example) 9999 \<and>
   session_ok (session_succeeding_from 10000 []) (process_type string_example) 10000 \<and>
   string_excitation (session_succeeding_from 10000 []) zero_moms string_example 7 =
     Inr (string_example\<lparr>outgoing_particles :=
                           [(forming 2 5 (1/2))\<lparr>momentum := fst zero_moms\<rparr>,
                            (forming 1 3 (1/4))\<lparr>momentum := snd zero_moms\<rparr>],
                         process_type := Elastic\<rparr>,
          10000, 10000)"
proof -
  let ?sp = "session_succeeding_from 10000 []"
  have a: "length (incoming_particles string_example) = 2"
    and b: "outgoing_particles string_example = []"
    by (simp_all add: string_example_fields)
  have c: "\<forall>j<10000. \<not> session_ok ?sp (process_type string_example)
             ((session_step ?sp (process_type string_example) ^^ j)
                (init ?sp (incoming_particles string_example)
                   (time_of_execution string_example) 7))"
    by (simp add: init_session_succeeding string_example_fields step_session_succeeding
        funpow_Suc_0 ok_session_succeeding)
  from string_excitation_all_tries_fail [OF a b c, of zero_moms] a b show ?thesis
    by (simp add: init_session_succeeding string_example_fields step_session_succeeding
        funpow_Suc_0 ok_session_succeeding)
qed




section \<open>Copies that have gone stale\<close>

lemma is_valid_True_iff:
  "is_valid ps p = Inr True \<longleftrightarrow>
     index_pd p < data_size ps \<and> index_pd p < length (data ps) \<and>
     id_pd (data ps ! index_pd p) = id_pd p \<and>
     id_process (data ps ! index_pd p) = id_process p"
  by (auto simp add: is_valid_def)

lemma is_valid_False_iff:
  "allocated ps \<Longrightarrow>
   is_valid ps p = Inr False \<longleftrightarrow> is_valid ps p \<noteq> Inr True"
  by (auto simp add: is_valid_def allocated_def)

lemma remove_fields:
  assumes "remove ps h = Inr ps'"
  shows "data_size ps' = data_size ps" and "id_max ps' = id_max ps"
    and "length (data ps') = length (data ps)"
    and "data ps' = (data ps)[index_pd h := (data ps ! index_pd h)\<lparr>hole := True, id_pd := - 1\<rparr>]"
    and "is_valid ps h = Inr True"
  using assms by (auto simp add: remove_def split: if_splits)

lemma remove_allocated:
  "remove ps h = Inr ps' \<Longrightarrow> allocated ps \<Longrightarrow> allocated ps'"
  by (simp add: allocated_def remove_fields)

lemma remove_keeps_invalid:
  assumes "remove ps h = Inr ps'" and "0 \<le> id_pd p"
    and "index_pd h = index_pd p \<or> is_valid ps p \<noteq> Inr True"
  shows "is_valid ps' p \<noteq> Inr True"
proof
  assume v: "is_valid ps' p = Inr True"
  have hv: "index_pd h < length (data ps)"
    using remove_fields(5) [OF assms(1)] by (simp add: is_valid_True_iff)
  show False
  proof (cases "index_pd h = index_pd p")
    case True
    with v hv assms(2) show False
      by (simp add: is_valid_True_iff remove_fields [OF assms(1)])
  next
    case False
    with v have "is_valid ps p = Inr True"
      by (simp add: is_valid_True_iff remove_fields [OF assms(1)])
    with False assms(3) show False by simp
  qed
qed

lemma remove_keeps_valid:
  assumes "remove ps h = Inr ps'" and "index_pd h \<noteq> index_pd p" and "is_valid ps p = Inr True"
  shows "is_valid ps' p = Inr True"
  using assms(2,3) by (simp add: is_valid_True_iff remove_fields [OF assms(1)])

lemma remove_succeeds: "is_valid ps h = Inr True \<Longrightarrow> \<exists>ps'. remove ps h = Inr ps'"
  by (simp add: remove_def)

lemma remove_all_succeeds:
  assumes "distinct (map index_pd hs)" and "\<forall>h \<in> set hs. is_valid ps h = Inr True"
  shows "\<exists>ps'. remove_all ps hs = Inr ps'"
  using assms
proof (induction hs arbitrary: ps)
  case Nil
  then show ?case by simp
next
  case (Cons h hs)
  then obtain ps1 where r: "remove ps h = Inr ps1"
    using remove_succeeds [of ps h] by auto
  have "\<forall>h' \<in> set hs. is_valid ps1 h' = Inr True"
  proof
    fix h' assume "h' \<in> set hs"
    with Cons.prems have "index_pd h \<noteq> index_pd h'" and "is_valid ps h' = Inr True" by auto
    with r show "is_valid ps1 h' = Inr True" by (rule remove_keeps_valid)
  qed
  moreover have "distinct (map index_pd hs)" using Cons.prems by simp
  ultimately obtain ps' where "remove_all ps1 hs = Inr ps'" using Cons.IH by blast
  with r show ?case by simp
qed

lemma remove_all_keeps_invalid:
  assumes "remove_all ps hs = Inr ps'" and "0 \<le> id_pd p"
    and "p \<in> set hs \<or> is_valid ps p \<noteq> Inr True"
  shows "is_valid ps' p \<noteq> Inr True"
  using assms
proof (induction hs arbitrary: ps)
  case Nil
  then show ?case by simp
next
  case (Cons h hs)
  from Cons.prems(1) obtain ps1 where r: "remove ps h = Inr ps1"
    and ra: "remove_all ps1 hs = Inr ps'"
    by (auto split: sum.splits)
  show ?case
  proof (cases "p \<in> set hs")
    case True
    with ra Cons.prems(2) show ?thesis by (intro Cons.IH) auto
  next
    case False
    with Cons.prems(3) have "index_pd h = index_pd p \<or> is_valid ps p \<noteq> Inr True" by auto
    with r Cons.prems(2) have "is_valid ps1 p \<noteq> Inr True" by (rule remove_keeps_invalid)
    with ra Cons.prems(2) show ?thesis by (intro Cons.IH) auto
  qed
qed

lemma remove_all_fields:
  assumes "remove_all ps hs = Inr ps'"
  shows "id_max ps' = id_max ps \<and> (allocated ps \<longrightarrow> allocated ps')"
  using assms
proof (induction hs arbitrary: ps)
  case Nil
  then show ?case by simp
next
  case (Cons h hs)
  from Cons.prems obtain ps1 where r: "remove ps h = Inr ps1"
    and ra: "remove_all ps1 hs = Inr ps'"
    by (auto split: sum.splits)
  from Cons.IH [OF ra] r show ?case
    by (auto simp add: remove_fields remove_allocated)
qed

lemma ensure_capacity_fields:
  "data_size (ensure_capacity n ps) = data_size ps"
  "id_max (ensure_capacity n ps) = id_max ps"
  "dirty (ensure_capacity n ps) = dirty ps"
  "data_size ps + n \<le> length (data (ensure_capacity n ps))"
  "i < length (data ps) \<Longrightarrow> data (ensure_capacity n ps) ! i = data ps ! i"
  by (auto simp add: ensure_capacity_def increase_capacity_def nth_append)

lemma ensure_capacity_one:
  "Suc (data_size ps) \<le> length (data (ensure_capacity (Suc 0) ps))"
  "data_size ps < length (data (ensure_capacity (Suc 0) ps))"
  using ensure_capacity_fields(4) [of ps "Suc 0"] by simp_all

lemma insert_particle_fields:
  "id_max (insert_particle ps q) = id_max ps + 1"
  "allocated ps \<Longrightarrow> allocated (insert_particle ps q)"
  by (auto simp add: insert_particle_def copy_in_def Let_def ensure_capacity_fields
      ensure_capacity_one allocated_def)

lemma insert_keeps_invalid:
  assumes "allocated ps" and "is_valid ps p \<noteq> Inr True" and "id_pd p \<noteq> id_max ps + 1"
  shows "is_valid (insert_particle ps q) p \<noteq> Inr True"
proof (cases "dirty ps = []")
  case True
  note d = this
  show ?thesis
  proof (cases "index_pd p < data_size ps")
    case True
    then have "index_pd p < length (data ps)" using assms(1) by (simp add: allocated_def)
    with True assms(2) d show ?thesis
      by (simp add: insert_particle_def copy_in_def Let_def ensure_capacity_fields
          ensure_capacity_one is_valid_True_iff)
  next
    case False
    show ?thesis
    proof (cases "index_pd p = data_size ps")
      case True
      with assms(3) d show ?thesis
        by (simp add: insert_particle_def copy_in_def Let_def ensure_capacity_fields
            ensure_capacity_one is_valid_True_iff)
    next
      case False
      with \<open>\<not> index_pd p < data_size ps\<close> d show ?thesis
        by (simp add: insert_particle_def copy_in_def Let_def ensure_capacity_fields
            is_valid_True_iff)
    qed
  qed
next
  case False
  show ?thesis
  proof (cases "index_pd p = lowest_hole (dirty ps)")
    case True
    with assms(3) \<open>dirty ps \<noteq> []\<close> show ?thesis
      by (auto simp add: insert_particle_def copy_in_def Let_def is_valid_True_iff)
  next
    case False
    with assms(2) \<open>dirty ps \<noteq> []\<close> show ?thesis
      by (auto simp add: insert_particle_def copy_in_def Let_def is_valid_True_iff)
  qed
qed

lemma fold_insert_keeps_invalid:
  assumes "allocated ps" and "is_valid ps p \<noteq> Inr True" and "id_pd p \<le> id_max ps"
  shows "is_valid (fold (\<lambda>q s. insert_particle s q) qs ps) p \<noteq> Inr True"
  using assms
proof (induction qs arbitrary: ps)
  case Nil
  then show ?case by simp
next
  case (Cons q qs)
  have "is_valid (insert_particle ps q) p \<noteq> Inr True"
    using Cons.prems by (intro insert_keeps_invalid) auto
  moreover have "allocated (insert_particle ps q)"
    using Cons.prems by (simp add: insert_particle_fields)
  moreover have "id_pd p \<le> id_max (insert_particle ps q)"
    using Cons.prems by (simp add: insert_particle_fields)
  ultimately show ?case using Cons.IH by simp
qed

lemma fold_insert_allocated:
  "allocated ps \<Longrightarrow> allocated (fold (\<lambda>q s. insert_particle s q) qs ps)"
  by (induction qs arbitrary: ps) (simp_all add: insert_particle_fields)

lemma replace_invalidates:
  assumes "allocated ps" and "ids_bounded ps"
    and "distinct (map index_pd to_remove)"
    and "\<forall>h \<in> set to_remove. is_valid ps h = Inr True"
    and "p \<in> set to_remove" and "0 \<le> id_pd p"
  shows "\<exists>ps'. replace ps to_remove to_add = Inr ps' \<and> is_valid ps' p = Inr False"
proof -
  obtain ps1 where r: "remove_all ps to_remove = Inr ps1"
    using remove_all_succeeds [OF assms(3,4)] by blast
  have inv1: "is_valid ps1 p \<noteq> Inr True"
    using r assms(6,5) by (intro remove_all_keeps_invalid [of ps to_remove]) auto
  have al1: "allocated ps1" and idm: "id_max ps1 = id_max ps"
    using remove_all_fields [OF r] assms(1) by auto
  have "is_valid ps p = Inr True" using assms(4,5) by blast
  then have "id_pd p \<le> id_max ps"
    using assms(2) by (auto simp add: is_valid_True_iff ids_bounded_def)
  then have "id_pd p \<le> id_max ps1" by (simp add: idm)
  with al1 inv1 have "is_valid (fold (\<lambda>q s. insert_particle s q) to_add ps1) p \<noteq> Inr True"
    by (rule fold_insert_keeps_invalid)
  moreover have "allocated (fold (\<lambda>q s. insert_particle s q) to_add ps1)"
    using al1 by (rule fold_insert_allocated)
  ultimately have "is_valid (fold (\<lambda>q s. insert_particle s q) to_add ps1) p = Inr False"
    by (simp add: is_valid_False_iff)
  with r show ?thesis by (simp add: replace_def)
qed





lemma insert_data_size:
  "data_size (insert_particle ps q) = (if dirty ps = [] then Suc (data_size ps) else data_size ps)"
  by (simp add: insert_particle_def copy_in_def Let_def ensure_capacity_fields)


lemma remove_ids_bounded:
  assumes "remove ps h = Inr ps'" and "- 1 \<le> id_max ps" and "ids_bounded ps"
  shows "ids_bounded ps'"
proof -
  have hv: "index_pd h < length (data ps)"
    using remove_fields(5) [OF assms(1)] by (simp add: is_valid_True_iff)
  show ?thesis
    unfolding ids_bounded_def
  proof (intro allI impI)
    fix i assume "i < data_size ps'"
    then have "i < data_size ps" by (simp add: remove_fields [OF assms(1)])
    with assms(3) have "id_pd (data ps ! i) \<le> id_max ps" by (simp add: ids_bounded_def)
    with hv assms(2) show "id_pd (data ps' ! i) \<le> id_max ps'"
      by (cases "i = index_pd h") (simp_all add: remove_fields [OF assms(1)])
  qed
qed

lemma remove_wf: "remove ps h = Inr ps' \<Longrightarrow> wf_store ps \<Longrightarrow> wf_store ps'"
  by (simp add: wf_store_def remove_allocated remove_ids_bounded remove_fields)

lemma remove_all_wf: "remove_all ps hs = Inr ps' \<Longrightarrow> wf_store ps \<Longrightarrow> wf_store ps'"
proof (induction hs arbitrary: ps)
  case Nil
  then show ?case by simp
next
  case (Cons h hs)
  from Cons.prems(1) obtain ps1 where r: "remove ps h = Inr ps1"
    and ra: "remove_all ps1 hs = Inr ps'"
    by (auto split: sum.splits)
  from r Cons.prems(2) have "wf_store ps1" by (rule remove_wf)
  with ra show ?case by (rule Cons.IH)
qed

lemma insert_ids_bounded:
  assumes "allocated ps" and "ids_bounded ps"
  shows "ids_bounded (insert_particle ps q)"
  unfolding ids_bounded_def
proof (intro allI impI)
  fix i assume i: "i < data_size (insert_particle ps q)"
  show "id_pd (data (insert_particle ps q) ! i) \<le> id_max (insert_particle ps q)"
  proof (cases "dirty ps = []")
    case True
    note d = this
    show ?thesis
    proof (cases "i = data_size ps")
      case True
      with d show ?thesis
        by (simp add: insert_particle_def copy_in_def Let_def ensure_capacity_fields
            ensure_capacity_one)
    next
      case False
      with i d have lt: "i < data_size ps" by (simp add: insert_data_size)
      then have "i < length (data ps)" using assms(1) by (simp add: allocated_def)
      moreover have "id_pd (data ps ! i) \<le> id_max ps"
        using lt assms(2) by (simp add: ids_bounded_def)
      ultimately show ?thesis
        using False d
        by (simp add: insert_particle_def copy_in_def Let_def ensure_capacity_fields)
    qed
  next
    case False
    with i have lt: "i < data_size ps" by (simp add: insert_data_size)
    then have len: "i < length (data ps)" using assms(1) by (simp add: allocated_def)
    have "id_pd (data ps ! i) \<le> id_max ps"
      using lt assms(2) by (simp add: ids_bounded_def)
    with len False show ?thesis
      by (cases "i = lowest_hole (dirty ps)")
         (simp_all add: insert_particle_def copy_in_def Let_def)
  qed
qed

lemma insert_wf: "wf_store ps \<Longrightarrow> wf_store (insert_particle ps q)"
  by (simp add: wf_store_def insert_ids_bounded insert_particle_fields)

lemma fold_insert_wf: "wf_store ps \<Longrightarrow> wf_store (fold (\<lambda>q s. insert_particle s q) qs ps)"
  by (induction qs arbitrary: ps) (simp_all add: insert_wf)

lemma fold_insert_id_max:
  "id_max (fold (\<lambda>q s. insert_particle s q) qs ps) = id_max ps + int (length qs)"
  by (induction qs arbitrary: ps) (simp_all add: insert_particle_fields)

lemma replace_wf:
  assumes "replace ps to_remove to_add = Inr ps'" and "wf_store ps"
  shows "wf_store ps'"
proof -
  from assms(1) obtain ps1 where r: "remove_all ps to_remove = Inr ps1"
    and e: "ps' = fold (\<lambda>q s. insert_particle s q) to_add ps1"
    by (auto simp add: replace_def split: sum.splits)
  from r assms(2) have "wf_store ps1" by (rule remove_all_wf)
  then show ?thesis unfolding e by (rule fold_insert_wf)
qed

lemma replace_keeps_stale:
  assumes "replace ps to_remove to_add = Inr ps'" and "allocated ps" and "stale p ps"
  shows "stale p ps'"
proof -
  from assms(1) obtain ps1 where r: "remove_all ps to_remove = Inr ps1"
    and e: "ps' = fold (\<lambda>q s. insert_particle s q) to_add ps1"
    by (auto simp add: replace_def split: sum.splits)
  have inv1: "is_valid ps1 p \<noteq> Inr True"
    using r assms(3) by (intro remove_all_keeps_invalid [of ps to_remove]) (auto simp add: stale_def)
  have al1: "allocated ps1" and idm: "id_max ps1 = id_max ps"
    using remove_all_fields [OF r] assms(2) by auto
  have le: "id_pd p \<le> id_max ps1" using assms(3) by (simp add: stale_def idm)
  from al1 inv1 le have "is_valid ps' p \<noteq> Inr True"
    unfolding e by (rule fold_insert_keeps_invalid)
  moreover have "id_pd p \<le> id_max ps'"
    using le by (simp add: e fold_insert_id_max)
  ultimately show ?thesis using assms(3) by (simp add: stale_def)
qed


lemma perform_actions_with_append:
  "perform_actions_with valid perf ps n (xs @ ys) =
     (case perform_actions_with valid perf ps n xs of
        Inl e \<Rightarrow> Inl e
      | Inr (ps1, n1, d1) \<Rightarrow>
          (case perform_actions_with valid perf ps1 n1 ys of
             Inl e \<Rightarrow> Inl e
           | Inr (ps2, n2, d2) \<Rightarrow> Inr (ps2, n2, d1 @ d2)))"
proof (induction xs arbitrary: ps n)
  case Nil
  show ?case
    by (cases "perform_actions_with valid perf ps n ys") auto
next
  case (Cons a xs)
  show ?case
  proof (cases "valid ps a")
    case False
    then show ?thesis using Cons.IH [of ps n] by simp
  next
    case True
    show ?thesis
    proof (cases "perf ps n a")
      case (Inl e)
      with True show ?thesis by simp
    next
      case (Inr r)
      obtain ps1 n1 where r: "r = (ps1, n1)" by (cases r)
      show ?thesis
      proof (cases "perform_actions_with valid perf ps1 n1 xs")
        case (Inl e)
        with True Inr r Cons.IH [of ps1 n1] show ?thesis by simp
      next
        case (Inr r2)
        obtain ps2 n2 d2 where r2: "r2 = (ps2, n2, d2)" by (cases r2)
        show ?thesis
        proof (cases "perform_actions_with valid perf ps2 n2 ys")
          case (Inl e)
          with True \<open>perf ps n a = Inr r\<close> r Inr r2 Cons.IH [of ps1 n1] show ?thesis by simp
        next
          case (Inr r3)
          obtain ps3 n3 d3 where r3: "r3 = (ps3, n3, d3)" by (cases r3)
          with True \<open>perf ps n a = Inr r\<close> r \<open>perform_actions_with valid perf ps1 n1 xs = Inr r2\<close>
            r2 Inr Cons.IH [of ps1 n1] show ?thesis by simp
        qed
      qed
    qed
  qed
qed

lemma perform_actions_append:
  "perform_actions ps n (xs @ ys) =
     (case perform_actions ps n xs of
        Inl e \<Rightarrow> Inl e
      | Inr (ps1, n1, d1) \<Rightarrow>
          (case perform_actions ps1 n1 ys of
             Inl e \<Rightarrow> Inl e
           | Inr (ps2, n2, d2) \<Rightarrow> Inr (ps2, n2, d1 @ d2)))"
  unfolding perform_actions_def by (rule perform_actions_with_append)

lemma perform_actions_invariant:
  assumes "perform_actions ps n acts = Inr (ps', n', performed)" and "wf_store ps"
  shows "wf_store ps' \<and> (stale p ps \<longrightarrow> stale p ps')"
  using assms
proof (induction acts arbitrary: ps n ps' n' performed)
  case Nil
  then show ?case by (simp add: perform_actions_def)
next
  case (Cons a acts)
  show ?case
  proof (cases "is_valid_action ps a")
    case False
    with Cons.prems(1) have "perform_actions ps n acts = Inr (ps', n', performed)"
      by (simp add: perform_actions_def)
    then show ?thesis using Cons.prems(2) by (rule Cons.IH)
  next
    case True
    have "\<exists>ps1 rest. replace ps (incoming_particles a) (outgoing_particles a) = Inr ps1 \<and>
            perform_actions ps1 (n + 1) acts = Inr (ps', n', rest)"
    proof (cases "replace ps (incoming_particles a) (outgoing_particles a)")
      case (Inl e)
      with True Cons.prems(1) show ?thesis by (simp add: perform_actions_def perform_def)
    next
      case (Inr ps1)
      show ?thesis
      proof (cases "perform_actions ps1 (n + 1) acts")
        case (Inl e)
        with True Inr Cons.prems(1) show ?thesis by (simp add: perform_actions_def perform_def)
      next
        case (Inr r2)
        obtain ps2 n2 d2 where r2: "r2 = (ps2, n2, d2)" by (cases r2)
        with True \<open>replace ps (incoming_particles a) (outgoing_particles a) = Inr ps1\<close>
          Inr Cons.prems(1) show ?thesis
          by (simp add: perform_actions_def perform_def)
      qed
    qed
    then obtain ps1 rest where
      r: "replace ps (incoming_particles a) (outgoing_particles a) = Inr ps1"
      and run: "perform_actions ps1 (n + 1) acts = Inr (ps', n', rest)"
      by blast
    have w1: "wf_store ps1" using r Cons.prems(2) by (rule replace_wf)
    have al: "allocated ps" using Cons.prems(2) by (simp add: wf_store_def)
    have "stale p ps \<Longrightarrow> stale p ps1"
      using r al by (rule replace_keeps_stale)
    with Cons.IH [OF run w1] show ?thesis by blast
  qed
qed

lemma earlier_action_stands_first:
  assumes "sorted (map time_of_execution (front @ a2 # post))"
    and "a1 \<in> set (front @ a2 # post)"
    and "time_of_execution a1 < time_of_execution a2"
  shows "a1 \<in> set front"
proof (rule ccontr)
  assume "a1 \<notin> set front"
  with assms(2,3) have "a1 \<in> set post" by auto
  with assms(1) have "time_of_execution a2 \<le> time_of_execution a1"
    by (auto simp add: sorted_append)
  with assms(3) show False by simp
qed


lemma first_performed:
  assumes "wf_store ps"
    and "p \<in> set (incoming_particles a1)" and "0 \<le> id_pd p"
    and "distinct (map index_pd (incoming_particles a1))"
    and "perform_actions ps n pre = Inr (ps1, n1, d1)"
    and "is_valid_action ps1 a1"
  shows "\<exists>ps1'. replace ps1 (incoming_particles a1) (outgoing_particles a1) = Inr ps1' \<and>
                perform_actions ps n (pre @ [a1]) = Inr (ps1', n1 + 1, d1 @ [a1]) \<and>
                wf_store ps1' \<and> stale p ps1'"
proof -
  have w1: "wf_store ps1" using perform_actions_invariant [OF assms(5,1)] by simp
  have v: "\<forall>h \<in> set (incoming_particles a1). is_valid ps1 h = Inr True"
    using assms(6) by (simp add: is_valid_action_def list_all_iff)
  from w1 have al: "allocated ps1" and ib: "ids_bounded ps1" by (simp_all add: wf_store_def)
  obtain ps1' where r: "replace ps1 (incoming_particles a1) (outgoing_particles a1) = Inr ps1'"
    and g: "is_valid ps1' p = Inr False"
    using replace_invalidates [OF al ib assms(4) v assms(2,3)] by blast
  have w2: "wf_store ps1'" using r w1 by (rule replace_wf)
  have "is_valid ps1 p = Inr True" using v assms(2) by blast
  then have "id_pd p \<le> id_max ps1"
    using ib by (auto simp add: is_valid_True_iff ids_bounded_def)
  moreover have "id_max ps1 \<le> id_max ps1'"
    using r by (auto simp add: replace_def fold_insert_id_max
        dest: remove_all_fields split: sum.splits)
  ultimately have st: "stale p ps1'" using g assms(3) by (simp add: stale_def)
  have "perform_actions ps1 n1 [a1] = Inr (ps1', n1 + 1, [a1])"
    using assms(6) r by (simp add: perform_actions_def perform_def)
  then have "perform_actions ps n (pre @ [a1]) = Inr (ps1', n1 + 1, d1 @ [a1])"
    using assms(5) by (simp add: perform_actions_append)
  with r w2 st show ?thesis by blast
qed

lemma stale_not_valid_action:
  "stale p ps \<Longrightarrow> p \<in> set (incoming_particles a) \<Longrightarrow> \<not> is_valid_action ps a"
  unfolding is_valid_action_def list_all_iff stale_def by blast

lemma skip_invalid:
  "\<not> is_valid_action ps a \<Longrightarrow> perform_actions ps n (a # acts) = perform_actions ps n acts"
  by (simp add: perform_actions_def)

lemma second_skipped:
  assumes "wf_store ps"
    and "p \<in> set (incoming_particles a1)" and "p \<in> set (incoming_particles a2)"
    and "0 \<le> id_pd p"
    and "distinct (map index_pd (incoming_particles a1))"
    and "perform_actions ps n pre = Inr (ps1, n1, d1)"
    and "is_valid_action ps1 a1"
    and "perform_actions ps n (pre @ a1 # mid) = Inr (ps2, n2, d2)"
  shows "is_valid ps2 p = Inr False \<and> \<not> is_valid_action ps2 a2"
proof -
  obtain ps1' where
    p1: "perform_actions ps n (pre @ [a1]) = Inr (ps1', n1 + 1, d1 @ [a1])"
    and w: "wf_store ps1'" and st: "stale p ps1'"
    using first_performed [OF assms(1,2,4,5,6,7)] by blast
  have "perform_actions ps n ((pre @ [a1]) @ mid) = Inr (ps2, n2, d2)"
    using assms(8) by simp
  then obtain dm where m: "perform_actions ps1' (n1 + 1) mid = Inr (ps2, n2, dm)"
    unfolding perform_actions_append [of ps n "pre @ [a1]" mid] p1
    by (cases "perform_actions ps1' (n1 + 1) mid") auto
  from perform_actions_invariant [OF m w, of p] st
  have w2: "wf_store ps2" and st2: "stale p ps2" by simp_all
  from w2 have "allocated ps2" by (simp add: wf_store_def)
  moreover from st2 have "is_valid ps2 p \<noteq> Inr True" by (simp add: stale_def)
  ultimately have "is_valid ps2 p = Inr False" by (simp add: is_valid_False_iff)
  with st2 assms(3) show ?thesis by (simp add: stale_not_valid_action)
qed

text \<open>
  C4, as the model has it. The action list is in time order, the first action \<open>a1\<close> is
  scheduled before the second \<open>a2\<close>, both hold a copy \<open>p\<close> of the same particle (with
  an identity the store has given out), and the incoming copies of \<open>a1\<close> lie in
  distinct slots. Then \<open>a1\<close> stands before \<open>a2\<close> in the list, and if \<open>a1\<close> is valid when
  the loop reaches it, the loop performs it (one replace, the counter raised by one);
  whatever the actions in between do, \<open>p\<close> is not valid in the store the loop has when
  it reaches \<open>a2\<close>, so \<open>a2\<close> is not valid there and is skipped without an error: the
  run through \<open>a2\<close> returns what the run up to it returned, and the run of the whole
  list is the run of the list without \<open>a2\<close>.
\<close>

theorem conflicting_actions_first_wins:
  assumes "wf_store ps"
    and "sorted (map time_of_execution (front @ a2 # post))"
    and "a1 \<in> set (front @ a2 # post)"
    and "time_of_execution a1 < time_of_execution a2"
    and "p \<in> set (incoming_particles a1)" and "p \<in> set (incoming_particles a2)"
    and "0 \<le> id_pd p"
    and "distinct (map index_pd (incoming_particles a1))"
  shows "\<exists>pre mid. front = pre @ a1 # mid \<and>
           (\<forall>ps1 n1 d1.
              perform_actions ps n pre = Inr (ps1, n1, d1) \<and> is_valid_action ps1 a1 \<longrightarrow>
              (\<exists>ps1'. replace ps1 (incoming_particles a1) (outgoing_particles a1) = Inr ps1' \<and>
                      perform_actions ps n (pre @ [a1]) = Inr (ps1', n1 + 1, d1 @ [a1])) \<and>
              (\<forall>ps2 n2 d2. perform_actions ps n front = Inr (ps2, n2, d2) \<longrightarrow>
                 is_valid ps2 p = Inr False \<and> \<not> is_valid_action ps2 a2 \<and>
                 perform_actions ps n (front @ [a2]) = Inr (ps2, n2, d2)) \<and>
              perform_actions ps n (front @ a2 # post) = perform_actions ps n (front @ post))"
proof -
  have "a1 \<in> set front" using assms(2,3,4) by (rule earlier_action_stands_first)
  then obtain pre mid where f: "front = pre @ a1 # mid" by (auto dest: split_list)
  have "perform_actions ps n pre = Inr (ps1, n1, d1) \<and> is_valid_action ps1 a1 \<longrightarrow>
          (\<exists>ps1'. replace ps1 (incoming_particles a1) (outgoing_particles a1) = Inr ps1' \<and>
                  perform_actions ps n (pre @ [a1]) = Inr (ps1', n1 + 1, d1 @ [a1])) \<and>
          (\<forall>ps2 n2 d2. perform_actions ps n front = Inr (ps2, n2, d2) \<longrightarrow>
             is_valid ps2 p = Inr False \<and> \<not> is_valid_action ps2 a2 \<and>
             perform_actions ps n (front @ [a2]) = Inr (ps2, n2, d2)) \<and>
          perform_actions ps n (front @ a2 # post) = perform_actions ps n (front @ post)"
    for ps1 n1 d1
  proof (intro impI, elim conjE)
    assume reach: "perform_actions ps n pre = Inr (ps1, n1, d1)"
      and v1: "is_valid_action ps1 a1"
    have A: "\<exists>ps1'. replace ps1 (incoming_particles a1) (outgoing_particles a1) = Inr ps1' \<and>
                  perform_actions ps n (pre @ [a1]) = Inr (ps1', n1 + 1, d1 @ [a1])"
      using first_performed [OF assms(1,5,7,8) reach v1] by blast
    have skip: "is_valid ps2 p = Inr False \<and> \<not> is_valid_action ps2 a2"
      if "perform_actions ps n front = Inr (ps2, n2, d2)" for ps2 n2 d2
      using second_skipped [OF assms(1,5,6,7,8) reach v1, of mid ps2 n2 d2] that
      by (simp add: f)
    have B: "\<forall>ps2 n2 d2. perform_actions ps n front = Inr (ps2, n2, d2) \<longrightarrow>
             is_valid ps2 p = Inr False \<and> \<not> is_valid_action ps2 a2 \<and>
             perform_actions ps n (front @ [a2]) = Inr (ps2, n2, d2)"
    proof (intro allI impI)
      fix ps2 n2 d2 assume run: "perform_actions ps n front = Inr (ps2, n2, d2)"
      from skip [OF run] have "perform_actions ps2 n2 [a2] = Inr (ps2, n2, [])"
        by (simp add: perform_actions_def)
      with run have "perform_actions ps n (front @ [a2]) = Inr (ps2, n2, d2)"
        by (simp add: perform_actions_append)
      with skip [OF run] show "is_valid ps2 p = Inr False \<and> \<not> is_valid_action ps2 a2 \<and>
             perform_actions ps n (front @ [a2]) = Inr (ps2, n2, d2)" by simp
    qed
    have C: "perform_actions ps n (front @ a2 # post) = perform_actions ps n (front @ post)"
    proof (cases "perform_actions ps n front")
      case (Inl e)
      then show ?thesis by (simp add: perform_actions_append)
    next
      case (Inr r)
      obtain ps2 n2 d2 where r: "r = (ps2, n2, d2)" by (cases r)
      with Inr skip [of ps2 n2 d2] show ?thesis
        by (simp add: perform_actions_append skip_invalid)
    qed
    from A B C show "(\<exists>ps1'. replace ps1 (incoming_particles a1) (outgoing_particles a1) = Inr ps1' \<and>
                  perform_actions ps n (pre @ [a1]) = Inr (ps1', n1 + 1, d1 @ [a1])) \<and>
          (\<forall>ps2 n2 d2. perform_actions ps n front = Inr (ps2, n2, d2) \<longrightarrow>
             is_valid ps2 p = Inr False \<and> \<not> is_valid_action ps2 a2 \<and>
             perform_actions ps n (front @ [a2]) = Inr (ps2, n2, d2)) \<and>
          perform_actions ps n (front @ a2 # post) = perform_actions ps n (front @ post)"
      by blast
  qed
  with f show ?thesis by blast
qed

lemma replace_first_action:
  "replace store3 (incoming_particles first_action) (outgoing_particles first_action) =
     Inr store3_after"
  by (simp add: replace_def first_action_def store3_def remove_def is_valid_def
      insert_particle_def copy_in_def lowest_hole_def Let_def store3_after_def particle_def
      empty_slot_def)

lemma store3_facts:
  "allocated store3" "ids_bounded store3" "is_valid_action store3 first_action"
  "distinct (map index_pd (incoming_particles first_action))"
    apply (simp add: allocated_def store3_def)
   apply (simp add: ids_bounded_def store3_def particle_def empty_slot_def nth_Cons')
  apply (simp add: is_valid_action_def first_action_def store3_def is_valid_def particle_def)
  apply (simp add: first_action_def particle_def)
  done

lemma second_action_stale:
  "is_valid_action store3 second_action" "\<not> is_valid_action store3_after second_action"
  by (simp_all add: is_valid_action_def second_action_def store3_def store3_after_def
      is_valid_def particle_def)

lemma store3_wf: "wf_store store3"
  by (simp add: wf_store_def store3_facts) (simp add: store3_def)

text \<open>
  The theorem of C4 at the store of three particles: the first action replaces the
  particles of slots 0 and 1 by particles with the fresh identities 3 and 4, and the
  second action, which holds a copy of the old particle of slot 1, is skipped.
\<close>

theorem conflicting_actions_first_wins_witness:
  "wf_store store3 \<and>
   sorted (map time_of_execution [first_action, second_action]) \<and>
   time_of_execution first_action < time_of_execution second_action \<and>
   particle 1 0 1 \<in> set (incoming_particles first_action) \<and>
   particle 1 0 1 \<in> set (incoming_particles second_action) \<and>
   0 \<le> id_pd (particle 1 0 1) \<and>
   distinct (map index_pd (incoming_particles first_action)) \<and>
   is_valid_action store3 first_action \<and> is_valid_action store3 second_action \<and>
   perform_actions store3 0 [first_action] = Inr (store3_after, 1, [first_action]) \<and>
   is_valid store3_after (particle 1 0 1) = Inr False \<and>
   \<not> is_valid_action store3_after second_action \<and>
   perform_actions store3 0 [first_action, second_action] =
     Inr (store3_after, 1, [first_action])"
proof -
  have s: "sorted (map time_of_execution ([first_action] @ second_action # []))"
    and m: "first_action \<in> set ([first_action] @ second_action # [])"
    and t: "time_of_execution first_action < time_of_execution second_action"
    and p1: "particle 1 0 1 \<in> set (incoming_particles first_action)"
    and p2: "particle 1 0 1 \<in> set (incoming_particles second_action)"
    and i: "0 \<le> id_pd (particle 1 0 1)"
    by (simp_all add: first_action_def second_action_def particle_def)
  have a: "perform_actions store3 0 [] = Inr (store3, 0, [])"
    by (simp add: perform_actions_def)
  from conflicting_actions_first_wins [OF store3_wf s m t p1 p2 i store3_facts(4), of 0]
  obtain pre mid where f: "[first_action] = pre @ first_action # mid"
    and all: "\<forall>ps1 n1 d1.
              perform_actions store3 0 pre = Inr (ps1, n1, d1) \<and> is_valid_action ps1 first_action \<longrightarrow>
              (\<exists>ps1'. replace ps1 (incoming_particles first_action)
                         (outgoing_particles first_action) = Inr ps1' \<and>
                      perform_actions store3 0 (pre @ [first_action]) =
                        Inr (ps1', n1 + 1, d1 @ [first_action])) \<and>
              (\<forall>ps2 n2 d2. perform_actions store3 0 [first_action] = Inr (ps2, n2, d2) \<longrightarrow>
                 is_valid ps2 (particle 1 0 1) = Inr False \<and> \<not> is_valid_action ps2 second_action \<and>
                 perform_actions store3 0 ([first_action] @ [second_action]) = Inr (ps2, n2, d2)) \<and>
              perform_actions store3 0 ([first_action] @ second_action # []) =
                perform_actions store3 0 ([first_action] @ [])"
    by blast
  from f have pre: "pre = []" by (cases pre) auto
  from all [rule_format, of store3 0 "[]"] a store3_facts(3)
  have 1: "\<exists>ps1'. replace store3 (incoming_particles first_action)
                         (outgoing_particles first_action) = Inr ps1' \<and>
                      perform_actions store3 0 [first_action] = Inr (ps1', 1, [first_action])"
    and 2: "\<forall>ps2 n2 d2. perform_actions store3 0 [first_action] = Inr (ps2, n2, d2) \<longrightarrow>
                 is_valid ps2 (particle 1 0 1) = Inr False \<and> \<not> is_valid_action ps2 second_action \<and>
                 perform_actions store3 0 ([first_action] @ [second_action]) = Inr (ps2, n2, d2)"
    by (simp_all add: pre)
  from 1 have r: "perform_actions store3 0 [first_action] = Inr (store3_after, 1, [first_action])"
    by (simp add: replace_first_action)
  from 2 [rule_format, OF r]
  have "is_valid store3_after (particle 1 0 1) = Inr False \<and>
        \<not> is_valid_action store3_after second_action \<and>
        perform_actions store3 0 [first_action, second_action] =
          Inr (store3_after, 1, [first_action])"
    by simp
  with r s t p1 p2 i store3_wf store3_facts(3,4) second_action_stale(1) show ?thesis by simp
qed

text \<open>
  C4 as stated fails when an earlier action of the timestep has a particle in common
  with the first: here a third action at time 1/2 takes the particle of slot 0, so
  the first action (time 1) is not valid when the loop reaches it and is skipped, and
  the second action (time 2), whose particles are untouched, is performed.
\<close>

theorem first_skipped_counterexample:
  "particle 1 0 1 \<in> set (incoming_particles first_action) \<and>
   particle 1 0 1 \<in> set (incoming_particles second_action) \<and>
   time_of_execution first_action < time_of_execution second_action \<and>
   sorted (map time_of_execution [zeroth_action, first_action, second_action]) \<and>
   is_valid_action store3 first_action \<and> is_valid_action store3 second_action \<and>
   perform_actions store3 0 [zeroth_action, first_action, second_action] =
     Inr (store3_late, 2, [zeroth_action, second_action])"
  by (simp add: perform_actions_def perform_def replace_def remove_def is_valid_def
      is_valid_action_def insert_particle_def copy_in_def lowest_hole_def Let_def
      zeroth_action_def first_action_def second_action_def store3_def store3_late_def
      particle_def empty_slot_def)


section \<open>The argument of insert\<close>







end
